theory Spec2Isabelle
  imports Complex_Main
begin

section \<open>Quadratic-flux-minimising surfaces: the solver of pyoculus/solvers/qfm.py\<close>

text \<open>
  The theory embeds the bookkeeping of \<^verbatim>\<open>qfm.py\<close>: the codec of the degrees of
  freedom, the index arithmetic of the surface fold, the shapes and the error paths of
  the spectral transforms, of the residual and of the two drivers. Arrays of floating
  point numbers are lists of \<^typ>\<open>real\<close>: sums, products and the offsets by one are
  exact, and rounding is outside the model. Python integers are \<^typ>\<open>int\<close>, sizes of
  arrays are \<^typ>\<open>nat\<close>. Every exception of the source is a value of \<open>error\<close>.
\<close>

subsection \<open>Errors\<close>

datatype error =
    ValueError string
  | RuntimeError string
  | IndexError
  | ZeroDivisionError
  | AttributeError

subsection \<open>Slices\<close>

text \<open>\<^verbatim>\<open>xs[a:b]\<close> for non-negative bounds, and \<^verbatim>\<open>xs[1:-1]\<close>.\<close>

definition slice :: "nat \<Rightarrow> nat \<Rightarrow> 'a list \<Rightarrow> 'a list" where
  "slice a b xs = take (b - a) (drop a xs)"

definition inner :: "'a list \<Rightarrow> 'a list" where
  "inner xs = butlast (drop 1 xs)"

subsection \<open>The codec of the degrees of freedom\<close>

text \<open>
  \<^verbatim>\<open>QFM._unpack_dof\<close>: \<^verbatim>\<open>xx[0]\<close> raises on an empty vector; every slice is
  total. \<^verbatim>\<open>QFM._pack_dof\<close> concatenates and adds one.
\<close>

definition unpack_dof ::
  "real list \<Rightarrow> error + (real \<times> real list \<times> real list \<times> real list \<times> real list)" where
  "unpack_dof xx =
    (if xx = [] then Inl IndexError
     else
       let qN = (length xx - 1) div 4;
           nv = xx ! 0 - 1;
           rcn = map (\<lambda>x. x - 1) (slice 1 (qN + 2) xx);
           tsn = [0] @ map (\<lambda>x. x - 1) (slice (qN + 2) (2 * qN + 1) xx) @ [0];
           rsn = [0] @ map (\<lambda>x. x - 1) (slice (2 * qN + 1) (3 * qN) xx) @ [0];
           tcn = map (\<lambda>x. x - 1) (drop (3 * qN) xx)
       in Inr (nv, rcn, tsn, rsn, tcn))"

definition pack_dof ::
  "real \<Rightarrow> real list \<Rightarrow> real list \<Rightarrow> real list \<Rightarrow> real list \<Rightarrow> real list" where
  "pack_dof nv rcn tsn rsn tcn =
     map (\<lambda>x. x + 1) ([nv] @ rcn @ inner tsn @ inner rsn @ tcn)"

text \<open>
  The codec as numpy computes it, on arrays of float64. The result of adding or
  subtracting two doubles is the exact result rounded to the nearest double, a tie going
  to the even significand (IEEE 754 binary64: 53 significant bits, the least spacing
  2 powi (- 1074)); \<open>round64 r\<close> is that double for a real number r. The offset 1 is
  a double, and a finite double plus or minus one stays below the overflow threshold, so
  that no infinity arises in the codec.
\<close>

definition round_even :: "real \<Rightarrow> int" where
  "round_even m =
    (let f = \<lfloor>m\<rfloor>; d = m - of_int f in
     if d < 1 / 2 then f else if 1 / 2 < d then f + 1 else if even f then f else f + 1)"

definition round64 :: "real \<Rightarrow> real" where
  "round64 r =
    (if r = 0 then 0
     else let e = max (\<lfloor>log 2 \<bar>r\<bar>\<rfloor> - 52) (- 1074)
          in of_int (round_even (r / 2 powi e)) * 2 powi e)"





subsection \<open>The fold of the curves into a surface\<close>

text \<open>
  In \<^verbatim>\<open>QFM.action\<close> the loop \<^verbatim>\<open>for i in range(qq)\<close> computes
  \<^verbatim>\<open>idx = np.mod(pp * i, qq)\<close> and writes the rows
  \<^verbatim>\<open>idx * fM : (idx + 1) * fM\<close> of the folded arrays.
\<close>

definition fold_index :: "int \<Rightarrow> int \<Rightarrow> int \<Rightarrow> int" where
  "fold_index pp qq i = (pp * i) mod qq"

definition fold_blocks :: "int \<Rightarrow> int \<Rightarrow> int list" where
  "fold_blocks pp qq = map (fold_index pp qq) [0..qq - 1]"

definition block_rows :: "int \<Rightarrow> int \<Rightarrow> int set" where
  "block_rows fM idx = {idx * fM ..< (idx + 1) * fM}"

subsection \<open>Array operations of numpy\<close>

text \<open>
  Sequencing of results: the first exception wins.
\<close>

definition bind_err :: "error + 'a \<Rightarrow> ('a \<Rightarrow> error + 'b) \<Rightarrow> error + 'b" where
  "bind_err m f = (case m of Inl e \<Rightarrow> Inl e | Inr x \<Rightarrow> f x)"

text \<open>
  An elementwise operation on two one-dimensional arrays: equal lengths, or one of
  them of length one; anything else raises.
\<close>

definition broadcast2 :: "('a \<Rightarrow> 'b \<Rightarrow> 'c) \<Rightarrow> 'a list \<Rightarrow> 'b list \<Rightarrow> error + 'c list" where
  "broadcast2 f xs ys =
    (if length xs = length ys then Inr (map2 f xs ys)
     else if length xs = 1 then Inr (map (f (xs ! 0)) ys)
     else if length ys = 1 then Inr (map (\<lambda>x. f x (ys ! 0)) xs)
     else Inl (ValueError ''operands could not be broadcast together''))"

text \<open>A read past the end of a zero-padded spectrum.\<close>

definition cnth :: "complex list \<Rightarrow> nat \<Rightarrow> complex" where
  "cnth a k = (if k < length a then a ! k else 0)"

text \<open>
  \<^verbatim>\<open>np.fft.rfft(f)\<close> on a one-dimensional real array: the first n div 2 + 1
  coefficients of the discrete Fourier transform; no data points is an error.
\<close>

definition np_rfft :: "real list \<Rightarrow> error + complex list" where
  "np_rfft f =
    (let n = length f in
     if n = 0 then Inl (ValueError ''Invalid number of FFT data points (0) specified.'')
     else Inr (map (\<lambda>k. \<Sum>j<n. of_real (f ! j) * cis (- (2 * pi * real j * real k / real n)))
                 [0..<n div 2 + 1]))"

text \<open>
  \<^verbatim>\<open>np.fft.irfft(a, n)\<close>: n real points from the half spectrum a, cut or padded
  with zeros to n div 2 + 1 entries; the imaginary parts of the entry 0 and, for even n,
  of the entry n div 2 are not read. Fewer than one point is an error.
\<close>

definition np_irfft :: "complex list \<Rightarrow> int \<Rightarrow> error + real list" where
  "np_irfft a n =
    (if n < 1 then Inl (ValueError ''Invalid number of FFT data points specified.'')
     else
       let N = nat n in
       Inr (map (\<lambda>j. (Re (cnth a 0)
                       + (\<Sum>k = 1..<(N + 1) div 2.
                            2 * Re (cnth a k * cis (2 * pi * real k * real j / real N)))
                       + (if even N then Re (cnth a (N div 2)) * cos (pi * real j) else 0))
                      / real N)
              [0..<N]))"

subsection \<open>The one-dimensional transforms\<close>

text \<open>
  \<^verbatim>\<open>rfft1D\<close> on a one-dimensional array.
\<close>

definition rfft1D :: "real list \<Rightarrow> error + (real list \<times> real list)" where
  "rfft1D f =
    (let Nfft = length f in
     bind_err (np_rfft f) (\<lambda>ffft.
       let cosout = map (\<lambda>z. Re z / real Nfft * 2) ffft;
           cosout = cosout[0 := cosout ! 0 / 2];
           sinout = map (\<lambda>z. - Im z / real Nfft * 2) ffft;
           sinout = sinout[0 := 0]
       in Inr (cosout, sinout)))"

text \<open>
  \<^verbatim>\<open>irfft1D\<close> on one-dimensional arrays. The source copies \<^verbatim>\<open>sin_in\<close> to
  \<^verbatim>\<open>sin_in_new\<close> and sets its first and last entry to zero, and then builds the
  spectrum from \<^verbatim>\<open>sin_in\<close>; the binding of \<open>sin_in_new\<close> below is as unused as it is
  there. The two writes raise on an empty \<^verbatim>\<open>sin_in\<close>, and the doubling of the entry 0
  raises on an empty spectrum.
\<close>

definition irfft1D :: "real list \<Rightarrow> real list \<Rightarrow> int \<Rightarrow> error + real list" where
  "irfft1D cos_in sin_in nfft_multiplier =
    (let Nfft = nfft_multiplier * (int (length cos_in) - 1) in
     if sin_in = [] then Inl IndexError
     else
       let sin_in_new = (sin_in[0 := 0])[length sin_in - 1 := 0] in
       bind_err (broadcast2 (\<lambda>c s. (of_real c - \<i> * of_real s) * of_int Nfft) cos_in sin_in)
         (\<lambda>ffft.
            if ffft = [] then Inl IndexError
            else np_irfft (ffft[0 := ffft ! 0 * 2]) (2 * Nfft)))"

subsection \<open>More array operations\<close>

text \<open>
  \<^verbatim>\<open>ff[a:b] = v\<close> on a one-dimensional array: the value has the length of the
  slice, or length one.
\<close>

definition assign_slice :: "real list \<Rightarrow> nat \<Rightarrow> nat \<Rightarrow> real list \<Rightarrow> error + real list" where
  "assign_slice ff a b v =
    (let n = length (slice a b ff) in
     if length v = n then Inr (take a ff @ v @ drop (a + n) ff)
     else if length v = 1 then Inr (take a ff @ replicate n (v ! 0) @ drop (a + n) ff)
     else Inl (ValueError ''could not broadcast input array''))"

text \<open>\<^verbatim>\<open>t += v\<close>: the value is broadcast to the shape of the target.\<close>

definition inplace_add :: "real list \<Rightarrow> real list \<Rightarrow> error + real list" where
  "inplace_add t v =
    (if length v = length t then Inr (map2 (+) t v)
     else if length v = 1 then Inr (map (\<lambda>x. x + v ! 0) t)
     else Inl (ValueError ''non-broadcastable output operand''))"

text \<open>\<^verbatim>\<open>np.linspace(start, stop, num, endpoint=False)\<close>.\<close>

definition linspace :: "real \<Rightarrow> real \<Rightarrow> nat \<Rightarrow> real list" where
  "linspace start stop num =
     map (\<lambda>i. start + real i * ((stop - start) / real num)) [0..<num]"

text \<open>\<^verbatim>\<open>np.stack([r, t, z], -1)\<close> on one-dimensional arrays.\<close>

definition stack3 :: "real list \<Rightarrow> real list \<Rightarrow> real list \<Rightarrow> error + (real \<times> real \<times> real) list" where
  "stack3 r t z =
    (if length r = length t \<and> length t = length z then Inr (zip r (zip t z))
     else Inl (ValueError ''all input arrays must have the same shape''))"

text \<open>
  A two-dimensional array with its shape, and \<^verbatim>\<open>np.sum(c[:, nax] * tab, axis=0)\<close>:
  the column of coefficients is broadcast against the rows of the table.
\<close>

record 'a array2 =
  nrows :: nat
  ncols :: nat
  entry :: "nat \<Rightarrow> nat \<Rightarrow> 'a"

type_synonym table2 = "real array2"

definition mode_sum :: "real list \<Rightarrow> table2 \<Rightarrow> error + real list" where
  "mode_sum c tab =
    (if length c = nrows tab \<or> length c = 1 \<or> nrows tab = 1 then
       let rows = (if length c = 1 then nrows tab else length c) in
       Inr (map (\<lambda>j. \<Sum>i<rows. c ! (if length c = 1 then 0 else i)
                                  * entry tab (if nrows tab = 1 then 0 else i) j)
              [0..<ncols tab])
     else Inl (ValueError ''operands could not be broadcast together''))"

subsection \<open>The inverse transform on batched input\<close>

text \<open>
  An elementwise operation on two two-dimensional arrays: along each axis the sizes are
  equal or one of them is one.
\<close>

definition broadcast_tables ::
  "('a \<Rightarrow> 'b \<Rightarrow> 'c) \<Rightarrow> 'a array2 \<Rightarrow> 'b array2 \<Rightarrow> error + 'c array2" where
  "broadcast_tables f A B =
    (if (nrows A = nrows B \<or> nrows A = 1 \<or> nrows B = 1)
        \<and> (ncols A = ncols B \<or> ncols A = 1 \<or> ncols B = 1)
     then Inr \<lparr>nrows = (if nrows A = 1 then nrows B else nrows A),
               ncols = (if ncols A = 1 then ncols B else ncols A),
               entry = (\<lambda>i j. f (entry A (if nrows A = 1 then 0 else i)
                                           (if ncols A = 1 then 0 else j))
                                  (entry B (if nrows B = 1 then 0 else i)
                                           (if ncols B = 1 then 0 else j)))\<rparr>
     else Inl (ValueError ''operands could not be broadcast together''))"

text \<open>\<^verbatim>\<open>np.fft.irfft(A, n)\<close> on a two-dimensional array: row by row.\<close>

definition np_irfft_rows :: "complex array2 \<Rightarrow> int \<Rightarrow> error + table2" where
  "np_irfft_rows A n =
    (if n < 1 then Inl (ValueError ''Invalid number of FFT data points specified.'')
     else Inr \<lparr>nrows = nrows A, ncols = nat n,
               entry = (\<lambda>i j.
                  case np_irfft (map (entry A i) [0..<ncols A]) n of
                    Inr r \<Rightarrow> r ! j
                  | Inl e \<Rightarrow> 0)\<rparr>)"

text \<open>
  \<^verbatim>\<open>irfft1D\<close> on two-dimensional arrays, transformed along the last axis. Here
  \<^verbatim>\<open>sin_in_new[0] = 0\<close> and \<^verbatim>\<open>sin_in_new[-1] = 0\<close> write the first and the last
  row of the copy, and raise when there is no row; the copy is unused as before.
\<close>

definition irfft1D_batched :: "table2 \<Rightarrow> table2 \<Rightarrow> int \<Rightarrow> error + table2" where
  "irfft1D_batched cos_in sin_in nfft_multiplier =
    (let Nfft = nfft_multiplier * (int (ncols cos_in) - 1) in
     if nrows sin_in = 0 then Inl IndexError
     else
       let sin_in_new = sin_in\<lparr>entry := (\<lambda>i j.
             if i = 0 \<or> i = nrows sin_in - 1 then 0 else entry sin_in i j)\<rparr> in
       bind_err (broadcast_tables (\<lambda>c s. (of_real c - \<i> * of_real s) * of_int Nfft)
                   cos_in sin_in)
         (\<lambda>ffft.
            if ncols ffft = 0 then Inl IndexError
            else np_irfft_rows
                   (ffft\<lparr>entry := (\<lambda>i j. if j = 0 then entry ffft i j * 2
                                           else entry ffft i j)\<rparr>)
                   (2 * Nfft)))"

subsection \<open>The solver object\<close>

text \<open>
  The attributes that \<^verbatim>\<open>QFM.action\<close> sets before it solves, and that
  \<^verbatim>\<open>QFM.action_gradient\<close> reads: \<^verbatim>\<open>_nlist\<close>, \<^verbatim>\<open>_zeta\<close>,
  \<^verbatim>\<open>_cnzq\<close> and \<^verbatim>\<open>_snzq\<close>.
\<close>

record tables =
  nlist :: "real list"
  zeta :: "real list"
  cnzq :: table2
  snzq :: table2

text \<open>
  The object: the configuration read by \<^verbatim>\<open>__init__\<close>, the field model
  \<^verbatim>\<open>_problem.B_many\<close> (external: a sequence of coordinates to a sequence of field
  triples), and the tables, absent until \<^verbatim>\<open>action\<close> has run.
\<close>

record qfm =
  MM :: nat
  pqNtor :: nat
  pqMpol :: nat
  action_gradient_mode :: string
  Nfp :: int
  B_many :: "(real \<times> real \<times> real) list \<Rightarrow> (real \<times> real \<times> real) list"
  tabs :: "tables option"

text \<open>
  The tables as \<^verbatim>\<open>action\<close> computes them (after its divisions by qq and by
  MM * pqNtor have passed): \<^verbatim>\<open>np.arange\<close> of a negative bound is empty.
\<close>

definition action_tables :: "nat \<Rightarrow> nat \<Rightarrow> int \<Rightarrow> tables" where
  "action_tables MMv pqNtorv qq =
    (let qN = qq * int pqNtorv;
         Nfft = int MMv * qq * int pqNtorv;
         dz = 2 * pi / real (MMv * pqNtorv);
         nzq = (\<lambda>n i. real n * (real i * dz) / real_of_int qq)
     in \<lparr>nlist = map real [0..<nat (qN + 1)],
         zeta = map (\<lambda>i. real i * dz) [0..<nat Nfft],
         cnzq = \<lparr>nrows = nat (qN + 1), ncols = nat Nfft, entry = (\<lambda>n i. cos (nzq n i))\<rparr>,
         snzq = \<lparr>nrows = nat (qN + 1), ncols = nat Nfft, entry = (\<lambda>n i. sin (nzq n i))\<rparr>\<rparr>)"

subsection \<open>The action gradient\<close>

text \<open>A product with \<^verbatim>\<open>self._nlist\<close>, divided by qq.\<close>

definition times_n_over_q :: "real list \<Rightarrow> real list \<Rightarrow> int \<Rightarrow> error + real list" where
  "times_n_over_q v nl qq =
     bind_err (broadcast2 (*) v nl) (\<lambda>p. Inr (map (\<lambda>x. x / real_of_int qq) p))"

text \<open>The trial curve of the first \<^verbatim>\<open>if mode\<close> chain, by branch.\<close>

datatype curve =
    FourierCurve "real list" "real list" "real list"
  | RealCurve "real list" "real list" "real list" "real list" "real list"

definition curve_fourier ::
  "qfm \<Rightarrow> real \<Rightarrow> real list \<Rightarrow> real list \<Rightarrow> real list \<Rightarrow> real list \<Rightarrow> error + curve" where
  "curve_fourier self iota rcn tsn rsn tcn =
    (case tabs self of
       None \<Rightarrow> Inl AttributeError
     | Some tb \<Rightarrow>
         bind_err (mode_sum rcn (cnzq tb)) (\<lambda>rc.
         bind_err (mode_sum rsn (snzq tb)) (\<lambda>rs.
         bind_err (broadcast2 (+) rc rs) (\<lambda>r.
         bind_err (mode_sum tcn (cnzq tb)) (\<lambda>tc.
         bind_err (mode_sum tsn (snzq tb)) (\<lambda>ts.
         bind_err (broadcast2 (+) tc ts) (\<lambda>t.
         let z = zeta tb in
         bind_err (inplace_add t (map (\<lambda>x. iota * x) z)) (\<lambda>t.
           Inr (FourierCurve r t z)))))))))"

definition curve_real ::
  "qfm \<Rightarrow> real \<Rightarrow> int \<Rightarrow> real list \<Rightarrow> real list \<Rightarrow> real list \<Rightarrow> real list \<Rightarrow> error + curve" where
  "curve_real self iota qq rcn tsn rsn tcn =
     bind_err (irfft1D rcn rsn 1) (\<lambda>r.
     let z = linspace 0 (2 * real_of_int qq * pi) (length r) in
     bind_err (irfft1D tcn tsn 1) (\<lambda>t0.
     bind_err (broadcast2 (+) t0 (map (\<lambda>x. iota * x) z)) (\<lambda>t.
     case tabs self of
       None \<Rightarrow> Inl AttributeError
     | Some tb \<Rightarrow>
         bind_err (times_n_over_q rsn (nlist tb) qq) (\<lambda>c1.
         bind_err (times_n_over_q (map uminus rcn) (nlist tb) qq) (\<lambda>s1.
         bind_err (irfft1D c1 s1 1) (\<lambda>rdot.
         bind_err (times_n_over_q tsn (nlist tb) qq) (\<lambda>c2.
         bind_err (times_n_over_q (map uminus tcn) (nlist tb) qq) (\<lambda>s2.
         bind_err (irfft1D c2 s2 1) (\<lambda>td.
           Inr (RealCurve r t z rdot (map (\<lambda>x. x + iota) td)))))))))))"

text \<open>The residual of the second chain, written into \<^verbatim>\<open>ff\<close>.\<close>

definition residual_fourier ::
  "tables \<Rightarrow> real \<Rightarrow> int \<Rightarrow> nat \<Rightarrow> real list \<Rightarrow> real list \<Rightarrow> real list \<Rightarrow> real list
     \<Rightarrow> real list \<Rightarrow> real list \<Rightarrow> real list \<Rightarrow> error + real list" where
  "residual_fourier tb iota qq qN rcn tsn rsn tcn rhs_tdot rhs_rdot ff =
     bind_err (rfft1D rhs_tdot) (\<lambda>(rhs_tdot_fft_cos, rhs_tdot_fft_sin).
     bind_err (rfft1D rhs_rdot) (\<lambda>(rhs_rdot_fft_cos, rhs_rdot_fft_sin).
     bind_err (times_n_over_q rsn (nlist tb) qq) (\<lambda>a1.
     bind_err (broadcast2 (-) a1 (slice 0 (qN + 1) rhs_rdot_fft_cos)) (\<lambda>v1.
     bind_err (assign_slice ff 1 (qN + 2) v1) (\<lambda>ff.
     bind_err (times_n_over_q (map uminus rcn) (nlist tb) qq) (\<lambda>a2.
     bind_err (broadcast2 (-) a2 (slice 0 (qN + 1) rhs_rdot_fft_sin)) (\<lambda>v2.
     bind_err (assign_slice ff (qN + 2) (2 * qN + 1) (inner v2)) (\<lambda>ff.
     bind_err (times_n_over_q tsn (nlist tb) qq) (\<lambda>a3.
     bind_err (broadcast2 (-) a3 (slice 0 (qN + 1) rhs_tdot_fft_cos)) (\<lambda>v3.
     bind_err (assign_slice ff (2 * qN + 1) (3 * qN + 2) v3) (\<lambda>ff.
     if length ff \<le> 2 * qN + 1 then Inl IndexError
     else
       let ff = ff[2 * qN + 1 := ff ! (2 * qN + 1) + iota] in
       bind_err (times_n_over_q (map uminus tcn) (nlist tb) qq) (\<lambda>a4.
       bind_err (broadcast2 (-) a4 (slice 0 (qN + 1) rhs_tdot_fft_sin)) (\<lambda>v4.
         assign_slice ff (3 * qN + 2) (length ff) (inner v4))))))))))))))"

definition residual_real ::
  "nat \<Rightarrow> real list \<Rightarrow> real list \<Rightarrow> real list \<Rightarrow> real list \<Rightarrow> real list \<Rightarrow> error + real list" where
  "residual_real qN rdot tdot rhs_tdot rhs_rdot ff =
     bind_err (broadcast2 (-) rdot rhs_rdot) (\<lambda>v1.
     bind_err (assign_slice ff 1 (2 * qN + 1) v1) (\<lambda>ff.
     bind_err (broadcast2 (-) tdot rhs_tdot) (\<lambda>v2.
       assign_slice ff (2 * qN + 1) (length ff) v2)))"

text \<open>
  \<^verbatim>\<open>QFM.action_gradient\<close>. The division \<^verbatim>\<open>pp / qq\<close> of Python integers raises on
  qq = 0; the unpacking raises on an empty vector; an unknown mode raises after both.
  Divisions by a field component are divisions of arrays, which do not raise.
\<close>

definition action_gradient ::
  "qfm \<Rightarrow> real list \<Rightarrow> int \<Rightarrow> int \<Rightarrow> real \<Rightarrow> string \<Rightarrow> error + real list" where
  "action_gradient self xx pp qq a mode =
    (if qq = 0 then Inl ZeroDivisionError
     else
       let iota = real_of_int pp / real_of_int qq;
           qN = (length xx - 1) div 4
       in
       bind_err (unpack_dof xx) (\<lambda>(nv, rcn, tsn, rsn, tcn).
       bind_err
         (if mode = ''fourier'' then curve_fourier self iota rcn tsn rsn tcn
          else if mode = ''real'' then curve_real self iota qq rcn tsn rsn tcn
          else Inl (ValueError ''space should be 'real' or 'fourier' ''))
         (\<lambda>crv.
       let (r, t, z) = (case crv of FourierCurve r t z \<Rightarrow> (r, t, z)
                                  | RealCurve r t z rdot tdot \<Rightarrow> (r, t, z));
           area = tcn ! 0
       in
       bind_err (stack3 r t z) (\<lambda>coords.
       let B = B_many self coords;
           gBr = map fst B;
           gBt = map (\<lambda>b. fst (snd b)) B;
           gBz = map (\<lambda>b. snd (snd b)) B;
           rhs_tdot = map2 (/) gBt gBz;
           rhs_rdot = map2 (-) (map2 (/) gBr gBz) (map (\<lambda>g. nv / g) gBz);
           ff = replicate (length xx) 0;
           ff = ff[0 := area - a]
       in
       case crv of
         FourierCurve r t z \<Rightarrow>
           (case tabs self of
              None \<Rightarrow> Inl AttributeError
            | Some tb \<Rightarrow> residual_fourier tb iota qq qN rcn tsn rsn tcn rhs_tdot rhs_rdot ff)
       | RealCurve r t z rdot tdot \<Rightarrow> residual_real qN rdot tdot rhs_tdot rhs_rdot ff))))"

text \<open>
  A call of \<^verbatim>\<open>action_gradient\<close> as the root solver makes it inside
  \<^verbatim>\<open>action\<close>: the tables are those of this qq, the vector has the length
  4 * qN + 1 for qN = qq * pqNtor, the counts are positive, the FFT multiplier is at
  least two, and the field model returns one triple per coordinate.
\<close>

definition valid_call :: "qfm \<Rightarrow> nat \<Rightarrow> real list \<Rightarrow> bool" where
  "valid_call self qq xx \<longleftrightarrow>
     1 \<le> qq \<and> 1 \<le> pqNtor self \<and> 2 \<le> MM self
     \<and> tabs self = Some (action_tables (MM self) (pqNtor self) (int qq))
     \<and> length xx = 4 * (qq * pqNtor self) + 1
     \<and> (\<forall>cs. length (B_many self cs) = length cs)"

subsection \<open>The continuation loop of the surface assembler\<close>

text \<open>
  The external root solver, \<^verbatim>\<open>scipy.optimize.root(fun, x0, method=..., tol=...)\<close>
  with the arguments \<^verbatim>\<open>args\<close> already given to \<open>fun\<close>: it returns
  \<^verbatim>\<open>sol.success\<close> and \<^verbatim>\<open>sol.x\<close>, or passes on an exception of the residual.
\<close>

type_synonym root_fn =
  "(real list \<Rightarrow> error + real list) \<Rightarrow> real list \<Rightarrow> string \<Rightarrow> real
     \<Rightarrow> error + (bool \<times> real list)"

text \<open>One call of the solver, as the loop makes it, with what the solver answered.\<close>

record solve_call =
  call_jpq :: nat
  call_a :: real
  call_x0 :: "real list"
  call_outcome :: "error + (bool \<times> real list)"

text \<open>The arrays that collect the curves.\<close>

record curves =
  rcnarr :: "real list list"
  tcnarr :: "real list list"
  rsnarr :: "real list list"
  tsnarr :: "real list list"
  nvarr :: "real list"

text \<open>
  \<^verbatim>\<open>str\<close> on a Python integer. The text of a float is a parameter \<open>str_float\<close> of
  the model.
\<close>

fun str_nat :: "nat \<Rightarrow> string" where
  "str_nat n =
     (if n < 10 then [''0123456789'' ! n]
      else str_nat (n div 10) @ [''0123456789'' ! (n mod 10)])"

definition str_int :: "int \<Rightarrow> string" where
  "str_int i = (if i < 0 then ''-'' @ str_nat (nat (- i)) else str_nat (nat i))"

definition not_found_message :: "(real \<Rightarrow> string) \<Rightarrow> int \<Rightarrow> int \<Rightarrow> real \<Rightarrow> string" where
  "not_found_message str_float pp qq a =
     ''QFM orbit for pp='' @ str_int pp @ '',qq='' @ str_int qq @ '',a='' @ str_float a
       @ '' not found.''"

text \<open>What the loop reads and does not change.\<close>

record loop_env =
  env_self :: qfm
  env_root :: root_fn
  env_str_float :: "real \<Rightarrow> string"
  env_pp :: int
  env_qq :: int
  env_method :: string
  env_rguess :: real
  env_ncol :: nat
  env_dt :: real

text \<open>\<^verbatim>\<open>arr[jpq, :] = v\<close> on an array with \<open>ncol\<close> columns.\<close>

definition assign_row :: "real list list \<Rightarrow> nat \<Rightarrow> nat \<Rightarrow> real list \<Rightarrow> error + real list list" where
  "assign_row arr ncol jpq v =
    (if length v = ncol then Inr (arr[jpq := v])
     else if length v = 1 then Inr (arr[jpq := replicate ncol (v ! 0)])
     else Inl (ValueError ''could not broadcast input array''))"

text \<open>
  The initial guess (nv0, rcn0, tcn0, rsn0, tsn0): zeros with the radial guess for the
  first curve, the previous curve with its tcn[0] moved by dt for the others.
\<close>

definition initial_guess ::
  "loop_env \<Rightarrow> nat \<Rightarrow> curves
     \<Rightarrow> error + (real \<times> real list \<times> real list \<times> real list \<times> real list)" where
  "initial_guess env jpq cv =
    (if jpq = 0 then
       let z = replicate (env_ncol env) 0 in
       if env_ncol env = 0 then Inl IndexError
       else Inr (0, z[0 := env_rguess env], z[0 := 0], z, z)
     else
       let tcn0 = tcnarr cv ! (jpq - 1) in
       if tcn0 = [] then Inl IndexError
       else Inr (nvarr cv ! (jpq - 1), rcnarr cv ! (jpq - 1),
                 tcn0[0 := tcn0 ! 0 + env_dt env],
                 rsnarr cv ! (jpq - 1), tsnarr cv ! (jpq - 1)))"

definition store_curve ::
  "loop_env \<Rightarrow> nat \<Rightarrow> curves
     \<Rightarrow> real \<times> real list \<times> real list \<times> real list \<times> real list \<Rightarrow> error + curves" where
  "store_curve env jpq cv = (\<lambda>(nv, rcn, tsn, rsn, tcn).
     bind_err (assign_row (rcnarr cv) (env_ncol env) jpq rcn) (\<lambda>rc.
     bind_err (assign_row (tsnarr cv) (env_ncol env) jpq tsn) (\<lambda>ts.
     bind_err (assign_row (tcnarr cv) (env_ncol env) jpq tcn) (\<lambda>tc.
     bind_err (assign_row (rsnarr cv) (env_ncol env) jpq rsn) (\<lambda>rs.
       Inr \<lparr>rcnarr = rc, tcnarr = tc, rsnarr = rs, tsnarr = ts,
            nvarr = (nvarr cv)[jpq := nv]\<rparr>)))))"

text \<open>The residual that the loop hands to the solver for the area target a.\<close>

definition residual_for :: "loop_env \<Rightarrow> real \<Rightarrow> real list \<Rightarrow> error + real list" where
  "residual_for env a =
     (\<lambda>xx. action_gradient (env_self env) xx (env_pp env) (env_qq env) a
              (action_gradient_mode (env_self env)))"

text \<open>
  The loop \<^verbatim>\<open>for jpq in range(fM)\<close> of \<^verbatim>\<open>QFM.action\<close>, over the list of the
  indices still to come. It returns the calls of the solver it has made, in order, and
  the arrays or the exception.
\<close>

fun action_loop :: "loop_env \<Rightarrow> nat list \<Rightarrow> curves \<Rightarrow> solve_call list \<times> (error + curves)" where
  "action_loop env [] cv = ([], Inr cv)"
| "action_loop env (jpq # rest) cv =
    (let a = real jpq * env_dt env in
     case initial_guess env jpq cv of
       Inl e \<Rightarrow> ([], Inl e)
     | Inr (nv0, rcn0, tcn0, rsn0, tsn0) \<Rightarrow>
         let xx0 = pack_dof nv0 rcn0 tsn0 rsn0 tcn0;
             sol = env_root env (residual_for env a) xx0 (env_method env) (1 / 10 ^ 8);
             call = \<lparr>call_jpq = jpq, call_a = a, call_x0 = xx0, call_outcome = sol\<rparr>
         in
         case sol of
           Inl e \<Rightarrow> ([call], Inl e)
         | Inr (success, x) \<Rightarrow>
             if success then
               (case bind_err (unpack_dof x) (store_curve env jpq cv) of
                  Inl e \<Rightarrow> ([call], Inl e)
                | Inr cv' \<Rightarrow>
                    let (tr, res) = action_loop env rest cv' in (call # tr, res))
             else
               ([call],
                Inl (RuntimeError
                  (not_found_message (env_str_float env) (env_pp env) (env_qq env) a))))"

text \<open>
  \<^verbatim>\<open>QFM.action\<close> up to the end of the loop (the fold of the curves and the final
  transforms come after it and are not part of this function). The divisions of the
  preamble raise on qq = 0 and on MM * pqNtor = 0, and the allocation of the arrays
  raises on a negative number of columns.
\<close>

definition action_env ::
  "qfm \<Rightarrow> root_fn \<Rightarrow> (real \<Rightarrow> string) \<Rightarrow> int \<Rightarrow> int \<Rightarrow> real \<Rightarrow> string \<Rightarrow> loop_env" where
  "action_env self solver str_float pp qq rguess method =
     \<lparr>env_self = self\<lparr>tabs := Some (action_tables (MM self) (pqNtor self) qq)\<rparr>,
      env_root = solver, env_str_float = str_float, env_pp = pp, env_qq = qq,
      env_method = method, env_rguess = rguess,
      env_ncol = nat (qq * int (pqNtor self) + 1),
      env_dt = (2 * pi / real_of_int qq) / real (MM self * pqNtor self)\<rparr>"

definition action_curves ::
  "qfm \<Rightarrow> root_fn \<Rightarrow> (real \<Rightarrow> string) \<Rightarrow> int \<Rightarrow> int \<Rightarrow> real \<Rightarrow> string
     \<Rightarrow> solve_call list \<times> (error + curves)" where
  "action_curves self solver str_float pp qq rguess method =
    (if qq = 0 then ([], Inl ZeroDivisionError)
     else if MM self * pqNtor self = 0 then ([], Inl ZeroDivisionError)
     else if qq * int (pqNtor self) + 1 < 0
       then ([], Inl (ValueError ''negative dimensions are not allowed''))
     else
       let fM = MM self * pqNtor self;
           env = action_env self solver str_float pp qq rguess method;
           z = replicate fM (replicate (env_ncol env) 0)
       in action_loop env [0..<fM]
            \<lparr>rcnarr = z, tcnarr = z, rsnarr = z, tsnarr = z, nvarr = replicate fM 0\<rparr>)"

text \<open>
  What the loop guarantees about the k-th call of a run that made the calls \<open>tr\<close> over
  the indices \<open>js\<close> and ended in \<open>res\<close>, \<open>n\<close> being the number of calls.
\<close>

definition call_ok :: "loop_env \<Rightarrow> error + curves \<Rightarrow> nat \<Rightarrow> solve_call list \<Rightarrow> nat list \<Rightarrow> nat \<Rightarrow> bool" where
  "call_ok env res n tr js k \<longleftrightarrow>
     call_jpq (tr ! k) = js ! k
   \<and> call_a (tr ! k) = real (js ! k) * env_dt env
   \<and> call_outcome (tr ! k)
       = env_root env (residual_for env (call_a (tr ! k))) (call_x0 (tr ! k)) (env_method env)
           (1 / 10 ^ 8)
   \<and> (\<forall>x. call_outcome (tr ! k) = Inr (False, x)
        \<longrightarrow> Suc k = n
          \<and> res = Inl (RuntimeError
               (not_found_message (env_str_float env) (env_pp env) (env_qq env)
                  (call_a (tr ! k)))))"

subsection \<open>Two-dimensional arrays\<close>

definition zeros2 :: "nat \<Rightarrow> nat \<Rightarrow> table2" where
  "zeros2 R C = \<lparr>nrows = R, ncols = C, entry = (\<lambda>i j. 0)\<rparr>"

text \<open>\<^verbatim>\<open>arr.flatten()\<close>, row by row.\<close>

definition flatten :: "'a array2 \<Rightarrow> 'a list" where
  "flatten T = concat (map (\<lambda>i. map (entry T i) [0..<ncols T]) [0..<nrows T])"

text \<open>\<^verbatim>\<open>T[r, :] *= c\<close>.\<close>

definition scale_row :: "table2 \<Rightarrow> nat \<Rightarrow> real \<Rightarrow> table2" where
  "scale_row T r c = T\<lparr>entry := (\<lambda>i j. if i = r then entry T i j * c else entry T i j)\<rparr>"

text \<open>
  \<^verbatim>\<open>np.concatenate([[0], -np.arange(1, ntor + 1), np.arange(ntor, 0, -1)])\<close>, the
  columns of the modes 0, -1, ..., -ntor, ntor, ..., 1.
\<close>

definition idxlist :: "nat \<Rightarrow> int list" where
  "idxlist ntor = [0] @ map (\<lambda>k. - int k) [1..<ntor + 1] @ map int (rev [1..<ntor + 1])"

text \<open>
  An index array against an axis of size C: an index outside -C, ..., C - 1 raises, a
  negative one counts from the end.
\<close>

definition norm_indices :: "nat \<Rightarrow> int list \<Rightarrow> error + nat list" where
  "norm_indices C idx =
    (if \<forall>i \<in> set idx. - int C \<le> i \<and> i < int C
     then Inr (map (\<lambda>i. nat (if i < 0 then i + int C else i)) idx)
     else Inl IndexError)"

text \<open>
  \<^verbatim>\<open>pad[0:R0, idx] = src\<close>: the rows of the slice are cut at the rows of
  \<^verbatim>\<open>pad\<close>, the source is broadcast to rows by indices, and of two indices that name
  one column the later one is written last.
\<close>

definition scatter_cols :: "table2 \<Rightarrow> nat \<Rightarrow> int list \<Rightarrow> table2 \<Rightarrow> error + table2" where
  "scatter_cols pad R0 idx src =
     bind_err (norm_indices (ncols pad) idx) (\<lambda>cols.
       let rows = min R0 (nrows pad) in
       if (nrows src = rows \<or> nrows src = 1) \<and> (ncols src = length cols \<or> ncols src = 1)
       then Inr (pad\<lparr>entry := (\<lambda>i j.
              if i < rows then
                (case List.find (\<lambda>c. cols ! c = j) (rev [0..<length cols]) of
                   None \<Rightarrow> entry pad i j
                 | Some c \<Rightarrow> entry src (if nrows src = 1 then 0 else i)
                                       (if ncols src = 1 then 0 else c))
              else entry pad i j)\<rparr>)
       else Inl (ValueError ''shape mismatch: value array could not be broadcast''))"

text \<open>
  \<^verbatim>\<open>dst[0:R0, :] = src[0:R0, idx]\<close>: the rows of both slices are cut at the rows
  there are, and the gathered block is broadcast to the slice of \<^verbatim>\<open>dst\<close>.
\<close>

definition gather_cols :: "table2 \<Rightarrow> nat \<Rightarrow> int list \<Rightarrow> table2 \<Rightarrow> error + table2" where
  "gather_cols dst R0 idx src =
     bind_err (norm_indices (ncols src) idx) (\<lambda>cols.
       let rows = min R0 (nrows dst); srows = min R0 (nrows src) in
       if (srows = rows \<or> srows = 1) \<and> (length cols = ncols dst \<or> length cols = 1)
       then Inr (dst\<lparr>entry := (\<lambda>i j.
              if i < rows \<and> j < ncols dst
              then entry src (if srows = 1 then 0 else i)
                             (cols ! (if length cols = 1 then 0 else j))
              else entry dst i j)\<rparr>)
       else Inl (ValueError ''could not broadcast input array''))"

text \<open>
  \<^verbatim>\<open>np.fft.irfft2(G, axes=[-1, -2])\<close>: the complex inverse transform along the last
  axis, then the real inverse transform along the first one, to 2 * (rows - 1) points.
  \<^verbatim>\<open>np.fft.rfft2(f, axes=[-1, -2])\<close>: the real transform along the first axis and the
  complex one along the last. An axis without data points is an error.
\<close>

definition np_irfft2 :: "complex array2 \<Rightarrow> error + table2" where
  "np_irfft2 G =
    (let N1 = 2 * (nrows G - 1); C = ncols G in
     if nrows G < 2 \<or> C = 0
     then Inl (ValueError ''Invalid number of FFT data points specified.'')
     else
       let H = (\<lambda>m l. (\<Sum>n<C. entry G m n * cis (2 * pi * real n * real l / real C))
                        / of_nat C)
       in Inr \<lparr>nrows = N1, ncols = C,
               entry = (\<lambda>j l. (Re (H 0 l)
                   + (\<Sum>m = 1..<N1 div 2. 2 * Re (H m l * cis (2 * pi * real m * real j / real N1)))
                   + Re (H (N1 div 2) l) * cos (pi * real j)) / real N1)\<rparr>)"

definition np_rfft2 :: "table2 \<Rightarrow> error + complex array2" where
  "np_rfft2 f =
    (let N1 = nrows f; N2 = ncols f in
     if N1 = 0 \<or> N2 = 0
     then Inl (ValueError ''Invalid number of FFT data points specified.'')
     else Inr \<lparr>nrows = N1 div 2 + 1, ncols = N2,
               entry = (\<lambda>m n. \<Sum>j<N1. \<Sum>l<N2. of_real (entry f j l)
                  * cis (- (2 * pi * (real m * real j / real N1 + real n * real l / real N2))))\<rparr>)"

subsection \<open>The two-dimensional transforms\<close>

text \<open>\<^verbatim>\<open>rfft2D(f, mpol, ntor)\<close> with both mode counts given.\<close>

definition rfft2D :: "table2 \<Rightarrow> nat \<Rightarrow> nat \<Rightarrow> error + (table2 \<times> table2)" where
  "rfft2D f mpol ntor =
    (let Nfft1 = nrows f; Nfft2 = ncols f in
     bind_err (np_rfft2 f) (\<lambda>fftout.
       let last = nrows fftout - 1;
           fftcos = \<lparr>nrows = nrows fftout, ncols = ncols fftout,
                     entry = (\<lambda>m n. Re (entry fftout m n) / real Nfft1 / real Nfft2 * 2)\<rparr>;
           fftcos = scale_row (scale_row fftcos 0 (1 / 2)) last (1 / 2);
           fftsin = \<lparr>nrows = nrows fftout, ncols = ncols fftout,
                     entry = (\<lambda>m n. - Im (entry fftout m n) / real Nfft1 / real Nfft2 * 2)\<rparr>;
           fftsin = scale_row (scale_row fftsin 0 (1 / 2)) last (1 / 2);
           cn = zeros2 (mpol + 1) (2 * ntor + 1);
           sn = zeros2 (mpol + 1) (2 * ntor + 1)
       in
       bind_err (gather_cols cn (mpol + 1) (idxlist ntor) fftcos) (\<lambda>cn.
       bind_err (gather_cols sn (mpol + 1) (idxlist ntor) fftsin) (\<lambda>sn.
         Inr (cn, sn)))))"

text \<open>\<^verbatim>\<open>irfft2D(cn, sn, nfft_theta, nfft_zeta)\<close> with both grid sizes given.\<close>

definition irfft2D :: "table2 \<Rightarrow> table2 \<Rightarrow> nat \<Rightarrow> nat \<Rightarrow> error + table2" where
  "irfft2D cn sn nfft_theta nfft_zeta =
    (let ntor = (ncols cn - 1) div 2;
         mpol_new = nfft_theta div 2;
         ntor_new = nfft_zeta div 2;
         cn_pad = zeros2 (mpol_new + 1) (2 * ntor_new);
         sn_pad = zeros2 (mpol_new + 1) (2 * ntor_new)
     in
     bind_err (scatter_cols cn_pad (nrows cn) (idxlist ntor) cn) (\<lambda>cn_pad.
     bind_err (scatter_cols sn_pad (nrows cn) (idxlist ntor) sn) (\<lambda>sn_pad.
       let cn_pad = scale_row (scale_row cn_pad 0 2) (nrows cn_pad - 1) 2;
           sn_pad = scale_row (scale_row sn_pad 0 2) (nrows sn_pad - 1) 2
       in
       bind_err (np_irfft2 \<lparr>nrows = nrows cn_pad, ncols = ncols cn_pad,
                   entry = (\<lambda>m n. Complex (entry cn_pad m n) (- entry sn_pad m n))\<rparr>) (\<lambda>r.
         Inr (r\<lparr>entry := (\<lambda>j l. entry r j l * real nfft_theta * real nfft_zeta / 2)\<rparr>)))))"

subsection \<open>Boundary straightening\<close>

text \<open>
  \<^verbatim>\<open>theta[:, nax] + lam\<close>: a column of angles against a two-dimensional array.
\<close>

definition add_column :: "real list \<Rightarrow> table2 \<Rightarrow> error + table2" where
  "add_column th lam =
    (if length th = nrows lam \<or> length th = 1 \<or> nrows lam = 1
     then Inr \<lparr>nrows = (if length th = 1 then nrows lam else length th), ncols = ncols lam,
               entry = (\<lambda>i j. th ! (if length th = 1 then 0 else i)
                                + entry lam (if nrows lam = 1 then 0 else i) j)\<rparr>
     else Inl (ValueError ''operands could not be broadcast together''))"

text \<open>\<^verbatim>\<open>np.reshape(v, [R, C])\<close>.\<close>

definition reshape2 :: "real list \<Rightarrow> nat \<Rightarrow> nat \<Rightarrow> error + table2" where
  "reshape2 v R C =
    (if length v = R * C then Inr \<lparr>nrows = R, ncols = C, entry = (\<lambda>i j. v ! (i * C + j))\<rparr>
     else Inl (ValueError ''cannot reshape array''))"

text \<open>\<^verbatim>\<open>np.max\<close> of a list of numbers; an empty one is an error.\<close>

definition np_max :: "real list \<Rightarrow> error + real" where
  "np_max xs = (if xs = [] then Inl (ValueError ''zero-size array to reduction operation'')
                else Inr (Max (set xs)))"

text \<open>
  The state of the iteration, (iota, lambda_cn, lambda_sn), and one round of the loop
  up to the new state: the grid of trial angles, the field on it, its spectrum, and the
  update of lambda mode by mode. mpol and ntor are the local variables of
  \<^verbatim>\<open>straighten_boundary\<close>; the updates write into arrays of the shape of the
  spectrum that \<^verbatim>\<open>rfft2D\<close> returns, and divide arrays, which does not raise.
\<close>

type_synonym sb_state = "real \<times> table2 \<times> table2"

definition nlist_entry :: "int \<Rightarrow> nat \<Rightarrow> nat \<Rightarrow> real" where
  "nlist_entry Nfpv ntor c =
     real_of_int ((if c \<le> ntor then int c else int c - int (2 * ntor + 1)) * Nfpv)"

definition sb_round :: "qfm \<Rightarrow> real \<Rightarrow> nat \<Rightarrow> nat \<Rightarrow> sb_state \<Rightarrow> error + sb_state" where
  "sb_round self rho mpol ntor = (\<lambda>(iota_old, lambda_cn, lambda_sn).
     let nfft_theta = MM self * mpol;
         nfft_zeta = MM self * ntor;
         rarr = replicate (nfft_theta * nfft_zeta) rho;
         zarr = concat (replicate nfft_theta (linspace 0 (pi * 2) nfft_zeta))
     in
     bind_err (irfft2D lambda_cn lambda_sn nfft_theta nfft_zeta) (\<lambda>lambda_real.
     bind_err (add_column (linspace 0 (pi * 2) nfft_theta) lambda_real) (\<lambda>tarr.
     bind_err (stack3 rarr (flatten tarr) zarr) (\<lambda>coords.
     let B = B_many self coords in
     bind_err (reshape2 (map fst B) nfft_theta nfft_zeta) (\<lambda>Bs.
     bind_err (reshape2 (map (\<lambda>b. fst (snd b)) B) nfft_theta nfft_zeta) (\<lambda>Bt.
     bind_err (reshape2 (map (\<lambda>b. snd (snd b)) B) nfft_theta nfft_zeta) (\<lambda>Bz.
     let Bt_over_Bz = \<lparr>nrows = nrows Bt, ncols = ncols Bt,
                        entry = (\<lambda>i j. entry Bt i j / entry Bz i j)\<rparr>
     in
     bind_err (rfft2D Bt_over_Bz mpol ntor) (\<lambda>(cn, sn).
     let iota = entry cn 0 0;
         lambda_cn = lambda_cn\<lparr>entry := (\<lambda>m c.
            if m < nrows lambda_cn \<and> c < ncols lambda_cn \<and> (m, c) \<noteq> (0, 0)
            then entry sn m c / (- real m * iota + nlist_entry (Nfp self) ntor c)
            else if (m, c) = (0, 0) then 0 else entry lambda_cn m c)\<rparr>;
         lambda_sn = lambda_sn\<lparr>entry := (\<lambda>m c.
            if m < nrows lambda_sn \<and> c < ncols lambda_sn \<and> (m, c) \<noteq> (0, 0)
            then entry cn m c / (real m * iota - nlist_entry (Nfp self) ntor c)
            else if (m, c) = (0, 0) then 0 else entry lambda_sn m c)\<rparr>
     in Inr (iota, lambda_cn, lambda_sn)))))))))"

text \<open>
  The test at the end of a round: \<^verbatim>\<open>np.max([erriota, errcn, errsn]) < tol\<close>.
\<close>

definition abs_diff :: "table2 \<Rightarrow> table2 \<Rightarrow> real list" where
  "abs_diff A B = flatten \<lparr>nrows = nrows A, ncols = ncols A,
                            entry = (\<lambda>i j. \<bar>entry A i j - entry B i j\<bar>)\<rparr>"

definition sb_converged :: "real \<Rightarrow> sb_state \<Rightarrow> sb_state \<Rightarrow> error + bool" where
  "sb_converged tol = (\<lambda>(iota_old, lambda_cn_old, lambda_sn_old) (iota, lambda_cn, lambda_sn).
     let erriota = \<bar>iota - iota_old\<bar> in
     bind_err (np_max (abs_diff lambda_cn lambda_cn_old)) (\<lambda>errcn.
     bind_err (np_max (abs_diff lambda_sn lambda_sn_old)) (\<lambda>errsn.
     bind_err (np_max [erriota, errcn, errsn]) (\<lambda>err.
       Inr (err < tol)))))"

text \<open>The loop \<^verbatim>\<open>for i in range(niter)\<close> with its \<^verbatim>\<open>break\<close>.\<close>

fun sb_loop :: "qfm \<Rightarrow> real \<Rightarrow> real \<Rightarrow> nat \<Rightarrow> nat \<Rightarrow> nat \<Rightarrow> sb_state \<Rightarrow> error + sb_state" where
  "sb_loop self rho tol mpol ntor 0 st = Inr st"
| "sb_loop self rho tol mpol ntor (Suc n) st =
     bind_err (sb_round self rho mpol ntor st) (\<lambda>st'.
     bind_err (sb_converged tol st st') (\<lambda>stop.
       if stop then Inr st' else sb_loop self rho tol mpol ntor n st'))"

text \<open>
  \<^verbatim>\<open>QFM.straighten_boundary\<close>. The first line reads \<^verbatim>\<open>_pqMpol\<close> into
  \<^verbatim>\<open>mpol\<close>, and the second assigns \<^verbatim>\<open>_pqNtor\<close> to both \<^verbatim>\<open>ntor\<close> and
  \<^verbatim>\<open>mpol\<close>. The result is (iota, lambda_sn, lambda_cn), in this order.
\<close>

definition straighten_boundary ::
  "qfm \<Rightarrow> real \<Rightarrow> real \<Rightarrow> int \<Rightarrow> error + (real \<times> table2 \<times> table2)" where
  "straighten_boundary self rho tol niter =
    (let mpol = pqMpol self;
         ntor = pqNtor self;
         mpol = pqNtor self;
         lambda_cn = zeros2 (mpol + 1) (2 * ntor + 1);
         lambda_sn = zeros2 (mpol + 1) (2 * ntor + 1);
         iota = 0
     in
     bind_err (sb_loop self rho tol mpol ntor (nat niter) (iota, lambda_cn, lambda_sn))
       (\<lambda>(iota, lambda_cn, lambda_sn). Inr (iota, lambda_sn, lambda_cn)))"

text \<open>
  The state after k rounds without the test, and the test in the words of the
  specification: the changes of iota and of both spectra of lambda are all below tol.
\<close>

fun sb_rounds :: "qfm \<Rightarrow> real \<Rightarrow> nat \<Rightarrow> nat \<Rightarrow> nat \<Rightarrow> sb_state \<Rightarrow> error + sb_state" where
  "sb_rounds self rho mpol ntor 0 st = Inr st"
| "sb_rounds self rho mpol ntor (Suc k) st =
     bind_err (sb_rounds self rho mpol ntor k st) (sb_round self rho mpol ntor)"

definition sb_small :: "real \<Rightarrow> sb_state \<Rightarrow> sb_state \<Rightarrow> bool" where
  "sb_small tol = (\<lambda>(iota_old, cn_old, sn_old) (iota, cn, sn).
     \<bar>iota - iota_old\<bar> < tol
     \<and> Max (set (abs_diff cn cn_old)) < tol
     \<and> Max (set (abs_diff sn sn_old)) < tol)"

text \<open>
  The shape of the spectra of lambda, and a configuration on which the rounds run: a
  positive mode count, an even FFT multiplier \<^verbatim>\<open>_MM\<close> of at least two (it is twice
  \<^verbatim>\<open>nfft_multiplier\<close>), and a field model that returns one triple per coordinate.
\<close>

definition sb_shape :: "nat \<Rightarrow> sb_state \<Rightarrow> bool" where
  "sb_shape p = (\<lambda>(iota, cn, sn).
     nrows cn = p + 1 \<and> ncols cn = 2 * p + 1 \<and> nrows sn = p + 1 \<and> ncols sn = 2 * p + 1)"

definition valid_config :: "qfm \<Rightarrow> bool" where
  "valid_config self \<longleftrightarrow>
     1 \<le> pqNtor self \<and> 2 \<le> MM self \<and> even (MM self)
     \<and> (\<forall>cs. length (B_many self cs) = length cs)"

text \<open>The state before the first round: iota and both spectra are zero.\<close>

definition sb_start :: "qfm \<Rightarrow> sb_state" where
  "sb_start self =
     (0, zeros2 (pqNtor self + 1) (2 * pqNtor self + 1),
         zeros2 (pqNtor self + 1) (2 * pqNtor self + 1))"

subsection \<open>Band limits\<close>

text \<open>
  A real array on an N1 by N2 grid is band-limited to the mode counts mpol and ntor when
  its discrete spectrum (\<^verbatim>\<open>np.fft.rfft2\<close> of the array, as \<^verbatim>\<open>rfft2D\<close> computes it)
  vanishes at every poloidal mode above mpol and at every toroidal mode n beyond ntor,
  that is in every column n with ntor < n < N2 - ntor (the columns N2 - ntor, ..., N2 - 1
  carry the modes -ntor, ..., -1).
\<close>

definition band_limited :: "table2 \<Rightarrow> nat \<Rightarrow> nat \<Rightarrow> bool" where
  "band_limited f mpol ntor =
    (case np_rfft2 f of
       Inl e \<Rightarrow> False
     | Inr F \<Rightarrow> \<forall>m<nrows F. \<forall>n<ncols F.
                  mpol < m \<or> (ntor < n \<and> n + ntor < ncols F) \<longrightarrow> entry F m n = 0)"

text \<open>
  The columns that the index list of \<^verbatim>\<open>rfft2D\<close> and \<^verbatim>\<open>irfft2D\<close> names on an axis
  of size C: 0, then C - 1, ..., C - ntor, then ntor, ..., 1.
\<close>

definition band_cols :: "nat \<Rightarrow> nat \<Rightarrow> nat list" where
  "band_cols C ntor = 0 # map (\<lambda>k. C - k) [1..<ntor + 1] @ rev [1..<ntor + 1]"

section \<open>Properties\<close>

subsection \<open>Lists and slices\<close>

lemma inner_decomp:
  assumes "2 \<le> length xs"
  shows "xs = [xs ! 0] @ inner xs @ [last xs]"
proof -
  from assms obtain x ys where xs: "xs = x # ys"
    by (cases xs) auto
  with assms have ne: "ys \<noteq> []" by auto
  then have "ys = butlast ys @ [last ys]" by simp
  with xs ne show ?thesis by (simp add: inner_def)
qed

lemma length_inner: "length (inner xs) = length xs - 2"
  by (simp add: inner_def)

lemma map_shift_cancel: "map (\<lambda>x. x - 1) (map (\<lambda>x. x + 1) xs) = (xs :: real list)"
  by (simp add: comp_def)

lemma slice_append_drop: "a \<le> b \<Longrightarrow> slice a b v @ drop b v = drop a v"
proof -
  assume "a \<le> b"
  then have "drop b v = drop (b - a) (drop a v)" by simp
  then show ?thesis unfolding slice_def by (metis append_take_drop_id)
qed

subsection \<open>The codec\<close>

lemma unpack_pack:
  assumes qN: "1 \<le> qN"
    and len: "length rcn = qN + 1" "length tsn = qN + 1" "length rsn = qN + 1"
      "length tcn = qN + 1"
    and z: "tsn ! 0 = 0" "last tsn = 0" "rsn ! 0 = 0" "last rsn = 0"
  shows "unpack_dof (pack_dof nv rcn tsn rsn tcn) = Inr (nv, rcn, tsn, rsn, tcn)"
proof -
  from qN obtain m where m: "qN = Suc m" by (cases qN) auto
  let ?A = "map (\<lambda>x. x + 1) rcn" and ?B = "map (\<lambda>x. x + 1) (inner tsn)"
  and ?C = "map (\<lambda>x. x + 1) (inner rsn)" and ?D = "map (\<lambda>x. x + 1) tcn"
  let ?xx = "pack_dof nv rcn tsn rsn tcn"
  have xx: "?xx = (nv + 1) # ?A @ ?B @ ?C @ ?D"
    by (simp add: pack_dof_def)
  have lA: "length ?A = m + 2" and lB: "length ?B = m" and lC: "length ?C = m"
    and lD: "length ?D = m + 2"
    using len m by (simp_all add: length_inner)
  have lxx: "length ?xx = 4 * qN + 1"
    unfolding xx using lA lB lC lD m by simp
  then have q: "(length ?xx - 1) div 4 = qN" by simp
  have ne: "?xx \<noteq> []" using lxx by auto
  have s1: "slice 1 (qN + 2) ?xx = ?A"
    unfolding xx slice_def m using lA by simp
  have s2: "slice (qN + 2) (2 * qN + 1) ?xx = ?B"
    unfolding xx slice_def m using lA lB by simp
  have s3: "slice (2 * qN + 1) (3 * qN) ?xx = ?C"
    unfolding xx slice_def m using lA lB lC by simp
  have s4: "drop (3 * qN) ?xx = ?D"
    unfolding xx m using lA lB lC by (simp add: drop_Cons')
  have t: "tsn = [0] @ inner tsn @ [0]"
    using inner_decomp[of tsn] len qN z by simp
  have r: "rsn = [0] @ inner rsn @ [0]"
    using inner_decomp[of rsn] len qN z by simp
  have "unpack_dof ?xx = Inr (nv, map (\<lambda>x. x - 1) ?A, [0] @ map (\<lambda>x. x - 1) ?B @ [0],
      [0] @ map (\<lambda>x. x - 1) ?C @ [0], map (\<lambda>x. x - 1) ?D)"
    unfolding unpack_dof_def Let_def q s1 s2 s3 s4 using ne by (simp add: xx)
  also have "\<dots> = Inr (nv, rcn, [0] @ inner tsn @ [0], [0] @ inner rsn @ [0], tcn)"
    unfolding map_shift_cancel ..
  finally show ?thesis using t r by simp
qed

lemma pack_unpack:
  assumes qN: "1 \<le> qN" and len: "length v = 4 * qN + 1"
  shows "\<exists>nv rcn tsn rsn tcn. unpack_dof v = Inr (nv, rcn, tsn, rsn, tcn)
            \<and> pack_dof nv rcn tsn rsn tcn = v"
proof -
  have q: "(length v - 1) div 4 = qN" using len by simp
  have ne: "v \<noteq> []" using len by auto
  let ?A = "slice 1 (qN + 2) v" and ?B = "slice (qN + 2) (2 * qN + 1) v"
  and ?C = "slice (2 * qN + 1) (3 * qN) v" and ?D = "drop (3 * qN) v"
  let ?m = "map (\<lambda>x. x - 1)"
  have u: "unpack_dof v = Inr (v ! 0 - 1, ?m ?A, [0] @ ?m ?B @ [0], [0] @ ?m ?C @ [0], ?m ?D)"
    unfolding unpack_dof_def Let_def q using ne by simp
  have i1: "inner ([0] @ ?m ?B @ [0]) = ?m ?B" by (simp add: inner_def)
  have i2: "inner ([0] @ ?m ?C @ [0]) = ?m ?C" by (simp add: inner_def)
  have split: "[v ! 0] @ ?A @ ?B @ ?C @ ?D = v"
  proof -
    have "?C @ ?D = drop (2 * qN + 1) v"
      using qN by (intro slice_append_drop) simp
    then have "?B @ ?C @ ?D = drop (qN + 2) v"
      using qN slice_append_drop[of "qN + 2" "2 * qN + 1" v] by simp
    then have "?A @ ?B @ ?C @ ?D = drop 1 v"
      using slice_append_drop[of 1 "qN + 2" v] by simp
    moreover have "[v ! 0] @ drop 1 v = v" using ne by (cases v) auto
    ultimately show ?thesis by simp
  qed
  have "pack_dof (v ! 0 - 1) (?m ?A) ([0] @ ?m ?B @ [0]) ([0] @ ?m ?C @ [0]) (?m ?D)
      = [v ! 0] @ ?A @ ?B @ ?C @ ?D"
    unfolding pack_dof_def i1 i2 by (simp add: comp_def)
  with split u show ?thesis by metis
qed


lemma round_even_int [simp]: "round_even (of_int n) = n"
  by (simp add: round_even_def)




lemma round64_0 [simp]: "round64 0 = 0"
  by (simp add: round64_def)

lemma round64_grid:
  assumes m: "\<bar>m\<bar> < 2 ^ 53" and e: "- 1074 \<le> e"
  shows "round64 (of_int m * 2 powi e) = of_int m * 2 powi e"
proof (cases "m = 0")
  case True
  then show ?thesis by simp
next
  case False
  let ?r = "real_of_int m * 2 powi e"
  have r0: "?r \<noteq> 0" using False by simp
  have pos: "0 < \<bar>?r\<bar>" using r0 by simp
  define k where "k = \<lfloor>log 2 \<bar>?r\<bar>\<rfloor>"
  have "2 powr (of_int k) \<le> \<bar>?r\<bar>"
    using floor_log_eq_powr_iff[of "\<bar>?r\<bar>" 2 k] pos k_def by simp
  then have lo: "2 powi k \<le> \<bar>?r\<bar>" by (simp add: powr_real_of_int')
  have "real_of_int \<bar>m\<bar> < 2 ^ 53" using m by (metis of_int_less_numeral_power_cancel_iff)
  then have "\<bar>?r\<bar> < 2 ^ 53 * 2 powi e"
    by (simp add: abs_mult)
  also have "\<dots> = 2 powi (e + 53)"
    by (simp add: power_int_add)
  finally have "2 powi k < (2::real) powi (e + 53)" using lo by linarith
  then have "k < e + 53"
    using power_int_increasing[of "e + 53" k "2::real"] by (cases "k < e + 53") simp_all
  define E where "E = max (k - 52) (- 1074)"
  have E: "E \<le> e" using \<open>k < e + 53\<close> e by (simp add: E_def)
  then obtain n where n: "e = E + int n" by (metis zle_iff_zadd)
  have "?r / 2 powi E = of_int m * 2 ^ n"
    by (simp add: n power_int_add)
  also have "\<dots> = of_int (m * 2 ^ n)" by simp
  finally have q: "?r / 2 powi E = of_int (m * 2 ^ n)" .
  have "round64 ?r = of_int (round_even (?r / 2 powi E)) * 2 powi E"
    unfolding round64_def Let_def E_def k_def using r0 by simp
  also have "\<dots> = of_int (m * 2 ^ n) * 2 powi E" unfolding q round_even_int ..
  also have "\<dots> = ?r" by (simp add: n power_int_add)
  finally show ?thesis .
qed

lemma round64_of_int: "\<bar>m\<bar> < 2 ^ 53 \<Longrightarrow> round64 (of_int m) = of_int m"
  using round64_grid[of m 0] by simp


lemma round64_1 [simp]: "round64 1 = 1"
  using round64_of_int[of 1] by simp













subsection \<open>The fold index\<close>

lemma fold_index_range: "0 < qq \<Longrightarrow> fold_index pp qq i \<in> {0..<qq}"
  by (simp add: fold_index_def)

lemma dvd_diff_small:
  fixes i j qq :: int
  assumes d: "qq dvd i - j" and i: "i \<in> {0..<qq}" and j: "j \<in> {0..<qq}"
  shows "i = j"
proof (rule ccontr)
  assume ne: "i \<noteq> j"
  show False
  proof (cases "j < i")
    case True
    with i j have "0 < i - j" "i - j < qq" by auto
    then show False using d zdvd_not_zless by blast
  next
    case False
    with ne i j have "0 < j - i" "j - i < qq" by auto
    moreover from d have "qq dvd j - i" by (metis dvd_minus_iff minus_diff_eq)
    ultimately show False using zdvd_not_zless by blast
  qed
qed

lemma fold_index_inj:
  assumes "coprime pp qq"
  shows "inj_on (fold_index pp qq) {0..<qq}"
proof (rule inj_onI)
  fix i j assume i: "i \<in> {0..<qq}" and j: "j \<in> {0..<qq}"
    and e: "fold_index pp qq i = fold_index pp qq j"
  from e have "qq dvd pp * i - pp * j"
    by (simp add: fold_index_def mod_eq_dvd_iff)
  then have "qq dvd pp * (i - j)" by (simp add: right_diff_distrib)
  with assms(1) have d: "qq dvd i - j"
    by (metis coprime_dvd_mult_right_iff coprime_commute)
  then show "i = j" using i j by (rule dvd_diff_small)
qed

lemma fold_index_bij_iff:
  assumes "0 < qq"
  shows "bij_betw (fold_index pp qq) {0..<qq} {0..<qq} \<longleftrightarrow> gcd pp qq = 1"
proof
  assume b: "bij_betw (fold_index pp qq) {0..<qq} {0..<qq}"
  show "gcd pp qq = 1"
  proof (cases "qq = 1")
    case True then show ?thesis by simp
  next
    case False
    with assms have "1 \<in> {0..<qq}" by simp
    moreover from b have "fold_index pp qq ` {0..<qq} = {0..<qq}"
      by (simp add: bij_betw_def)
    ultimately have "1 \<in> fold_index pp qq ` {0..<qq}" by simp
    then obtain i where "fold_index pp qq i = 1" by auto
    then have e: "(pp * i) mod qq = 1" by (simp add: fold_index_def)
    have "gcd pp qq dvd (pp * i) mod qq"
      by (simp add: dvd_mod)
    with e have "gcd pp qq dvd 1" by simp
    then show ?thesis by simp
  qed
next
  assume "gcd pp qq = 1"
  then have c: "coprime pp qq" by (simp add: coprime_iff_gcd_eq_1)
  have "inj_on (fold_index pp qq) {0..<qq}" using fold_index_inj[OF c] .
  moreover have "fold_index pp qq ` {0..<qq} \<subseteq> {0..<qq}"
    using fold_index_range[OF assms] by blast
  moreover have "finite {0..<qq}" by simp
  ultimately show "bij_betw (fold_index pp qq) {0..<qq} {0..<qq}"
    by (metis endo_inj_surj bij_betw_def)
qed

lemma int_range: "{0..qq - 1} = {0..<qq::int}"
  by auto

lemma set_fold_blocks: "set (fold_blocks pp qq) = fold_index pp qq ` {0..<qq}"
  by (simp add: fold_blocks_def int_range)

lemma distinct_fold_blocks:
  "coprime pp qq \<Longrightarrow> distinct (fold_blocks pp qq)"
  unfolding fold_blocks_def
  by (simp add: distinct_map int_range fold_index_inj)

lemma count_list_distinct: "distinct xs \<Longrightarrow> x \<in> set xs \<Longrightarrow> count_list xs x = 1"
  by (induction xs) auto

lemma count_fold_blocks:
  assumes "0 < qq" "gcd pp qq = 1" "b \<in> {0..<qq}"
  shows "count_list (fold_blocks pp qq) b = 1"
proof -
  from assms(2) have c: "coprime pp qq" by (simp add: coprime_iff_gcd_eq_1)
  from assms(1,2) have "bij_betw (fold_index pp qq) {0..<qq} {0..<qq}"
    by (simp add: fold_index_bij_iff)
  then have "set (fold_blocks pp qq) = {0..<qq}"
    by (simp add: set_fold_blocks bij_betw_def)
  with assms(3) distinct_fold_blocks[OF c] show ?thesis
    by (simp add: count_list_distinct)
qed

lemma div_block_lower: "0 < fM \<Longrightarrow> (\<rho> div fM) * fM \<le> (\<rho>::int)"
  using div_mult_mod_eq[of \<rho> fM] pos_mod_sign[of fM \<rho>] by linarith

lemma div_block_upper:
  assumes "0 < fM"
  shows "(\<rho>::int) < (\<rho> div fM + 1) * fM"
proof -
  have "(\<rho> div fM + 1) * fM = \<rho> div fM * fM + fM" by (simp add: algebra_simps)
  then show ?thesis
    using div_mult_mod_eq[of \<rho> fM] pos_mod_bound[OF assms, of \<rho>] by linarith
qed

lemma div_block_range:
  assumes "0 < fM" "0 \<le> \<rho>" "\<rho> < qq * fM"
  shows "0 \<le> \<rho> div fM \<and> \<rho> div fM < (qq::int)"
proof -
  have "(\<rho> div fM) * fM < qq * fM"
    using div_block_lower[OF assms(1), of \<rho>] assms(3) by linarith
  then have "\<rho> div fM < qq" using assms(1) by (simp add: mult_less_cancel_right)
  moreover have "0 \<le> \<rho> div fM" using assms(1,2) by (simp add: pos_imp_zdiv_nonneg_iff)
  ultimately show ?thesis by simp
qed

lemma block_rows_iff:
  assumes "0 < fM"
  shows "\<rho> \<in> block_rows fM idx \<longleftrightarrow> idx = \<rho> div fM"
proof
  assume "\<rho> \<in> block_rows fM idx"
  then have lo: "idx * fM \<le> \<rho>" and hi: "\<rho> < (idx + 1) * fM"
    by (simp_all add: block_rows_def)
  define r where "r = \<rho> - idx * fM"
  have "\<rho> = fM * idx + r" "0 \<le> r" "r < fM"
    using lo hi by (simp_all add: r_def algebra_simps)
  then show "idx = \<rho> div fM" by (simp add: int_div_pos_eq)
next
  assume e: "idx = \<rho> div fM"
  show "\<rho> \<in> block_rows fM idx"
    unfolding e block_rows_def
    using div_block_lower[OF assms, of \<rho>] div_block_upper[OF assms, of \<rho>] by simp
qed

lemma block_rows_unique:
  assumes "0 < qq" "gcd pp qq = 1" "0 < fM" "\<rho> \<in> {0..<qq * fM}"
  shows "\<exists>!i. i \<in> {0..<qq} \<and> \<rho> \<in> block_rows fM (fold_index pp qq i)"
proof -
  from assms(1,2) have b: "bij_betw (fold_index pp qq) {0..<qq} {0..<qq}"
    by (simp add: fold_index_bij_iff)
  have "\<rho> div fM \<in> {0..<qq}"
    using div_block_range[of fM \<rho> qq] assms(3,4) by simp
  with b have "\<exists>!i. i \<in> {0..<qq} \<and> fold_index pp qq i = \<rho> div fM"
    unfolding bij_betw_def inj_on_def by (metis (no_types, lifting) imageE)
  then show ?thesis
    unfolding block_rows_iff[OF assms(3)] by metis
qed

text \<open>
  C5: for positive pp and qq the map i \<mapsto> (pp * i) mod qq is a bijection on
  {0, ..., qq - 1} exactly when gcd pp qq = 1; and then every shift index is computed
  by exactly one round of the fold loop, and every row of the folded arrays lies in the
  row block of exactly one round.
\<close>

theorem fold_index_bijection:
  assumes "0 < pp" "0 < qq"
  shows "(bij_betw (fold_index pp qq) {0..<qq} {0..<qq} \<longleftrightarrow> gcd pp qq = 1)
       \<and> (gcd pp qq = 1 \<longrightarrow>
            (\<forall>b \<in> {0..<qq}. count_list (fold_blocks pp qq) b = 1)
          \<and> (\<forall>fM. 0 < fM \<longrightarrow> (\<forall>\<rho> \<in> {0..<qq * fM}.
                \<exists>!i. i \<in> {0..<qq} \<and> \<rho> \<in> block_rows fM (fold_index pp qq i))))"
proof (intro conjI impI ballI allI)
  show "bij_betw (fold_index pp qq) {0..<qq} {0..<qq} \<longleftrightarrow> gcd pp qq = 1"
    using assms(2) by (rule fold_index_bij_iff)
next
  fix b assume "gcd pp qq = 1" "b \<in> {0..<qq}"
  with assms(2) show "count_list (fold_blocks pp qq) b = 1"
    by (rule count_fold_blocks)
next
  fix fM \<rho> :: int assume "gcd pp qq = 1" "0 < fM" "\<rho> \<in> {0..<qq * fM}"
  with assms(2) show "\<exists>!i. i \<in> {0..<qq} \<and> \<rho> \<in> block_rows fM (fold_index pp qq i)"
    by (rule block_rows_unique)
qed

theorem fold_index_bijection_witness:
  "gcd (2 :: int) 3 = 1
   \<and> bij_betw (fold_index 2 3) {0..<3} {0..<3}
   \<and> count_list (fold_blocks 2 3) 1 = 1
   \<and> (\<exists>!i. i \<in> {0..<3} \<and> 7 \<in> block_rows 4 (fold_index 2 3 i))
   \<and> gcd (2 :: int) 4 = 2
   \<and> \<not> bij_betw (fold_index 2 4) {0..<4} {0..<4}"
  using fold_index_bijection[of 2 3] fold_index_bijection[of 2 4]
  by simp

subsection \<open>The one-dimensional transforms\<close>

lemma bind_err_Inr_iff:
  "bind_err m f = Inr y \<longleftrightarrow> (\<exists>x. m = Inr x \<and> f x = Inr y)"
  by (cases m) (simp_all add: bind_err_def)

lemma bind_err_Inr [simp]: "bind_err (Inr x) f = f x"
  by (simp add: bind_err_def)

lemma bind_err_Inl [simp]: "bind_err (Inl e) f = Inl e"
  by (simp add: bind_err_def)

lemma broadcast2_length:
  "broadcast2 f xs ys = Inr zs \<Longrightarrow>
     length zs = (if length xs = 1 then length ys else length xs)"
  by (auto simp: broadcast2_def split: if_splits)

lemma broadcast2_same:
  "length xs = length ys \<Longrightarrow> broadcast2 f xs ys = Inr (map2 f xs ys)"
  by (simp add: broadcast2_def)

lemma np_irfft_length: "np_irfft a n = Inr r \<Longrightarrow> int (length r) = n"
  by (auto simp: np_irfft_def Let_def split: if_splits)

lemma np_irfft_ok: "1 \<le> n \<Longrightarrow> \<exists>r. np_irfft a n = Inr r \<and> length r = nat n"
  by (simp add: np_irfft_def Let_def)

lemma np_rfft_ok: "f \<noteq> [] \<Longrightarrow> \<exists>F. np_rfft f = Inr F \<and> length F = length f div 2 + 1"
  by (simp add: np_rfft_def Let_def)

lemma irfft1D_length:
  assumes "irfft1D cos_in sin_in m = Inr r"
  shows "int (length r) = 2 * m * (int (length cos_in) - 1)"
  using assms
  by (auto simp: irfft1D_def Let_def bind_err_Inr_iff split: if_splits dest!: np_irfft_length)

lemma irfft1D_ok:
  assumes "length sin_in = length cos_in" "2 \<le> length cos_in" "1 \<le> m"
  shows "\<exists>r. irfft1D cos_in sin_in m = Inr r \<and> length r = 2 * nat m * (length cos_in - 1)"
proof -
  let ?N = "m * (int (length cos_in) - 1)"
  have N: "1 \<le> 2 * ?N"
  proof -
    have "1 \<le> int (length cos_in) - 1" using assms(2) by simp
    with assms(3) have "1 * 1 \<le> m * (int (length cos_in) - 1)"
      by (intro mult_mono) simp_all
    then show ?thesis by simp
  qed
  let ?g = "\<lambda>c s. (complex_of_real c - \<i> * complex_of_real s) * of_int ?N"
  let ?F = "map2 ?g cos_in sin_in"
  have b: "broadcast2 ?g cos_in sin_in = Inr ?F"
    using assms(1) by (simp add: broadcast2_same)
  have ne: "?F \<noteq> []" "sin_in \<noteq> []" using assms(1,2) by auto
  from np_irfft_ok[OF N] obtain r where r: "np_irfft (?F[0 := ?F ! 0 * 2]) (2 * ?N) = Inr r"
    and lr: "length r = nat (2 * ?N)" by blast
  have "irfft1D cos_in sin_in m = Inr r"
    unfolding irfft1D_def Let_def using ne b r by simp
  moreover have "nat (2 * ?N) = 2 * nat m * (length cos_in - 1)"
    using assms(2,3) by (simp add: nat_mult_distrib nat_diff_distrib')
  ultimately show ?thesis using lr by simp
qed

lemma rfft1D_ok:
  assumes "f \<noteq> []"
  shows "\<exists>c s. rfft1D f = Inr (c, s) \<and> length c = length f div 2 + 1
            \<and> length s = length f div 2 + 1 \<and> s ! 0 = 0"
proof -
  from np_rfft_ok[OF assms] obtain F where F: "np_rfft f = Inr F"
    and l: "length F = length f div 2 + 1" by blast
  then show ?thesis by (simp add: rfft1D_def Let_def)
qed

lemma rfft1D_sin0:
  "rfft1D f = Inr (c, s) \<Longrightarrow> s ! 0 = 0 \<and> length s = length f div 2 + 1 \<and> length c = length f div 2 + 1"
  by (auto simp: rfft1D_def Let_def bind_err_Inr_iff np_rfft_def split: if_splits)

lemma rfft1D_empty: "rfft1D [] = Inl (ValueError ''Invalid number of FFT data points (0) specified.'')"
  by (simp add: rfft1D_def np_rfft_def)


lemma upt2: "[0..<2] = [0, 1]"
  by (simp add: upt_rec)

lemma upt4: "[0..<4] = [0, 1, 2, 3]"
  by (simp add: upt_rec)

lemma range12: "{Suc 0..<2} = {Suc 0}"
  by auto

lemma sin_3pi2: "sin (pi * 3 / 2) = - 1"
proof -
  have "pi * 3 / 2 = 3 / 2 * pi" by simp
  then show ?thesis by (simp only: sin_3over2_pi)
qed

lemma cos_3pi2: "cos (pi * 3 / 2) = 0"
proof -
  have "pi * 3 / 2 = 3 / 2 * pi" by simp
  then show ?thesis by (simp only: cos_3over2_pi)
qed

lemma irfft1D_batched_length:
  assumes "irfft1D_batched cos_in sin_in m = Inr r"
  shows "int (ncols r) = 2 * m * (int (ncols cos_in) - 1)
       \<and> nrows r = (if nrows cos_in = 1 then nrows sin_in else nrows cos_in)"
  using assms
  by (auto simp: irfft1D_batched_def Let_def bind_err_Inr_iff broadcast_tables_def
      np_irfft_rows_def split: if_splits)

lemma irfft1D_batched_ok:
  assumes "nrows sin_in = nrows cos_in" "ncols sin_in = ncols cos_in"
    "1 \<le> nrows cos_in" "2 \<le> ncols cos_in" "1 \<le> m"
  shows "\<exists>r. irfft1D_batched cos_in sin_in m = Inr r"
proof -
  have "1 \<le> int (ncols cos_in) - 1" using assms(4) by simp
  with assms(5) have "1 * 1 \<le> m * (int (ncols cos_in) - 1)"
    by (intro mult_mono) simp_all
  then have N: "\<not> 2 * (m * (int (ncols cos_in) - 1)) < 1" by simp
  show ?thesis
    unfolding irfft1D_batched_def Let_def broadcast_tables_def np_irfft_rows_def
    using assms N by simp
qed

text \<open>
  The number of points that \<^verbatim>\<open>irfft1D\<close> computes: whenever it returns, its result
  has 2 * multiplier * (len(cos) - 1) points along the transformed axis, on
  one-dimensional and on batched input; and it returns for every pair of arrays of one
  shape with at least two coefficients (and at least one row) and every multiplier of at
  least one.
\<close>

theorem irfft1D_output_points:
  "(\<forall>r. irfft1D cos_in sin_in m = Inr r
        \<longrightarrow> int (length r) = 2 * m * (int (length cos_in) - 1))
   \<and> (length sin_in = length cos_in \<and> 2 \<le> length cos_in \<and> 1 \<le> m
        \<longrightarrow> (\<exists>r. irfft1D cos_in sin_in m = Inr r))
   \<and> (\<forall>r. irfft1D_batched cos_rows sin_rows m = Inr r
        \<longrightarrow> int (ncols r) = 2 * m * (int (ncols cos_rows) - 1))
   \<and> (nrows sin_rows = nrows cos_rows \<and> ncols sin_rows = ncols cos_rows
        \<and> 1 \<le> nrows cos_rows \<and> 2 \<le> ncols cos_rows \<and> 1 \<le> m
        \<longrightarrow> (\<exists>r. irfft1D_batched cos_rows sin_rows m = Inr r))"
  using irfft1D_length[of cos_in sin_in m] irfft1D_ok[of sin_in cos_in m]
    irfft1D_batched_length[of cos_rows sin_rows m]
    irfft1D_batched_ok[of sin_rows cos_rows m]
  by blast

theorem irfft1D_output_points_witness:
  "(\<exists>r. irfft1D [1, 2, 3] [0, 5, 0] 2 = Inr r \<and> length r = 8)
   \<and> (\<exists>r. irfft1D_batched \<lparr>nrows = 2, ncols = 3, entry = (\<lambda>i j. 1)\<rparr>
             \<lparr>nrows = 2, ncols = 3, entry = (\<lambda>i j. 0)\<rparr> 2 = Inr r \<and> ncols r = 8)"
proof -
  note t = irfft1D_output_points[of "[1, 2, 3]" "[0, 5, 0]" 2
      "\<lparr>nrows = 2, ncols = 3, entry = (\<lambda>i j. 1)\<rparr>"
      "\<lparr>nrows = 2, ncols = 3, entry = (\<lambda>i j. 0)\<rparr>"]
  from t obtain r where r: "irfft1D [1, 2, 3] [0, 5, 0] 2 = Inr r" by auto
  with t have lr: "int (length r) = 8" by auto
  from t obtain r' where r': "irfft1D_batched \<lparr>nrows = 2, ncols = 3, entry = (\<lambda>i j. 1)\<rparr>
             \<lparr>nrows = 2, ncols = 3, entry = (\<lambda>i j. 0)\<rparr> 2 = Inr r'" by auto
  with t have lr': "int (ncols r') = 8" by auto
  from r lr r' lr' show ?thesis by auto
qed

text \<open>
  C2, the failing input: two coefficients and the multiplier one. The docstring of
  \<^verbatim>\<open>irfft1D\<close> and the claim give multiplier * (len(cos) - 1) = 1 output point; the
  code returns the two points [1, 1].
\<close>

theorem irfft1D_two_points_for_one:
  "irfft1D [1, 0] [0, 0] 1 = Inr [1, 1]
   \<and> int (length [1, 1 :: real]) \<noteq> 1 * (int (length [1, 0 :: real]) - 1)"
  by (simp add: irfft1D_def broadcast2_def np_irfft_def cnth_def upt2)

text \<open>
  C3, the failing input: with two coefficients and the multiplier two, the sine
  coefficient at the last index reaches the transform: the output is the sine wave it
  stands for, where the output for a nulled coefficient is zero. (The first half of the
  claim holds: see \<open>rfft1D_sin0\<close>.)
\<close>

theorem irfft1D_last_sine_not_nulled:
  "irfft1D [0, 0] [0, 1] 2 = Inr [0, 1, 0, - 1]
   \<and> irfft1D [0, 0] [0, 0] 2 = Inr [0, 0, 0, 0]"
  by (simp add: irfft1D_def broadcast2_def np_irfft_def cnth_def upt4 range12 sin_3pi2)

subsection \<open>The action gradient\<close>

lemma slice_length: "length (slice a b xs) = min (b - a) (length xs - a)"
  by (simp add: slice_def)

lemma assign_slice_ok:
  assumes "a \<le> length ff" "length v = length (slice a b ff)"
  shows "\<exists>ff'. assign_slice ff a b v = Inr ff' \<and> length ff' = length ff
            \<and> (0 < a \<longrightarrow> ff' ! 0 = ff ! 0)"
proof -
  let ?n = "length (slice a b ff)"
  let ?r = "take a ff @ v @ drop (a + ?n) ff"
  have "assign_slice ff a b v = Inr ?r"
    using assms(2) by (simp add: assign_slice_def Let_def)
  moreover have "length ?r = length ff"
    using assms by (simp add: slice_length)
  moreover have "0 < a \<longrightarrow> ?r ! 0 = ff ! 0"
    using assms(1) by (cases ff; cases a) (simp_all add: nth_append)
  ultimately show ?thesis by blast
qed

lemma unpack_dof_valid:
  assumes "1 \<le> qN" "length xx = 4 * qN + 1"
  shows "\<exists>nv rcn tsn rsn tcn. unpack_dof xx = Inr (nv, rcn, tsn, rsn, tcn)
          \<and> length rcn = qN + 1 \<and> length tsn = qN + 1 \<and> length rsn = qN + 1
          \<and> length tcn = qN + 1"
proof -
  have q: "(length xx - 1) div 4 = qN" using assms(2) by simp
  have ne: "xx \<noteq> []" using assms(2) by auto
  show ?thesis
    unfolding unpack_dof_def Let_def q using ne assms
    by (simp add: slice_length)
qed

lemma mode_sum_ok:
  assumes "length c = nrows tab"
  shows "\<exists>s. mode_sum c tab = Inr s \<and> length s = ncols tab"
  using assms by (simp add: mode_sum_def Let_def)

lemma times_n_over_q_ok:
  assumes "length v = length nl"
  shows "\<exists>p. times_n_over_q v nl qq = Inr p \<and> length p = length nl"
  using assms by (simp add: times_n_over_q_def broadcast2_def)

lemma broadcast2_ok:
  assumes "length xs = length ys"
  shows "\<exists>zs. broadcast2 f xs ys = Inr zs \<and> length zs = length ys"
  using assms by (simp add: broadcast2_def)

lemma inplace_add_ok:
  assumes "length v = length t"
  shows "\<exists>s. inplace_add t v = Inr s \<and> length s = length t"
  using assms by (simp add: inplace_add_def)

lemma action_tables_shape:
  "length (nlist (action_tables M n (int q))) = q * n + 1"
  "length (zeta (action_tables M n (int q))) = M * q * n"
  "nrows (cnzq (action_tables M n (int q))) = q * n + 1"
  "ncols (cnzq (action_tables M n (int q))) = M * q * n"
  "nrows (snzq (action_tables M n (int q))) = q * n + 1"
  "ncols (snzq (action_tables M n (int q))) = M * q * n"
proof -
  have a: "nat (int q * int n + 1) = q * n + 1"
    by (simp add: nat_add_distrib nat_mult_distrib)
  have b: "nat (int M * int q * int n) = M * q * n"
    by (simp add: nat_mult_distrib)
  show "length (nlist (action_tables M n (int q))) = q * n + 1"
    "length (zeta (action_tables M n (int q))) = M * q * n"
    "nrows (cnzq (action_tables M n (int q))) = q * n + 1"
    "ncols (cnzq (action_tables M n (int q))) = M * q * n"
    "nrows (snzq (action_tables M n (int q))) = q * n + 1"
    "ncols (snzq (action_tables M n (int q))) = M * q * n"
    unfolding action_tables_def Let_def a b by simp_all
qed

lemma curve_fourier_ok:
  assumes t: "tabs self = Some tb"
    and sh: "nrows (cnzq tb) = k" "nrows (snzq tb) = k" "ncols (cnzq tb) = N"
      "ncols (snzq tb) = N" "length (zeta tb) = N"
    and len: "length rcn = k" "length tsn = k" "length rsn = k" "length tcn = k"
  shows "\<exists>r t z. curve_fourier self iota rcn tsn rsn tcn = Inr (FourierCurve r t z)
           \<and> length r = N \<and> length t = N \<and> length z = N"
proof -
  obtain rc where rc: "mode_sum rcn (cnzq tb) = Inr rc" "length rc = N"
    using mode_sum_ok[of rcn "cnzq tb"] sh len by auto
  obtain rs where rs: "mode_sum rsn (snzq tb) = Inr rs" "length rs = N"
    using mode_sum_ok[of rsn "snzq tb"] sh len by auto
  obtain r where r: "broadcast2 (+) rc rs = Inr r" "length r = N"
    using broadcast2_ok[of rc rs "(+)"] rc rs by auto
  obtain tc where tc: "mode_sum tcn (cnzq tb) = Inr tc" "length tc = N"
    using mode_sum_ok[of tcn "cnzq tb"] sh len by auto
  obtain ts where ts: "mode_sum tsn (snzq tb) = Inr ts" "length ts = N"
    using mode_sum_ok[of tsn "snzq tb"] sh len by auto
  obtain t0 where t0: "broadcast2 (+) tc ts = Inr t0" "length t0 = N"
    using broadcast2_ok[of tc ts "(+)"] tc ts by auto
  obtain t1 where t1: "inplace_add t0 (map (\<lambda>x. iota * x) (zeta tb)) = Inr t1" "length t1 = N"
    using inplace_add_ok[of "map (\<lambda>x. iota * x) (zeta tb)" t0] t0 sh by auto
  have "curve_fourier self iota rcn tsn rsn tcn = Inr (FourierCurve r t1 (zeta tb))"
    unfolding curve_fourier_def using t rc rs r tc ts t0 t1 by simp
  then show ?thesis using r t1 sh by blast
qed

lemma linspace_length [simp]: "length (linspace a b n) = n"
  by (simp add: linspace_def)

lemma curve_real_ok:
  assumes t: "tabs self = Some tb"
    and sh: "length (nlist tb) = k"
    and len: "length rcn = k" "length tsn = k" "length rsn = k" "length tcn = k"
    and k: "2 \<le> k"
  shows "\<exists>r t z rdot tdot. curve_real self iota qq rcn tsn rsn tcn = Inr (RealCurve r t z rdot tdot)
           \<and> length r = 2 * (k - 1) \<and> length t = 2 * (k - 1) \<and> length z = 2 * (k - 1)
           \<and> length rdot = 2 * (k - 1) \<and> length tdot = 2 * (k - 1)"
proof -
  let ?L = "2 * (k - 1)"
  obtain r where r: "irfft1D rcn rsn 1 = Inr r" "length r = ?L"
    using irfft1D_ok[of rsn rcn 1] len k by auto
  let ?z = "linspace 0 (2 * real_of_int qq * pi) (length r)"
  obtain t0 where t0: "irfft1D tcn tsn 1 = Inr t0" "length t0 = ?L"
    using irfft1D_ok[of tsn tcn 1] len k by auto
  obtain t1 where t1: "broadcast2 (+) t0 (map (\<lambda>x. iota * x) ?z) = Inr t1" "length t1 = ?L"
    using broadcast2_ok[of t0 "map (\<lambda>x. iota * x) ?z" "(+)"] t0 r by auto
  obtain c1 where c1: "times_n_over_q rsn (nlist tb) qq = Inr c1" "length c1 = k"
    using times_n_over_q_ok[of rsn "nlist tb" qq] sh len by auto
  obtain s1 where s1: "times_n_over_q (map uminus rcn) (nlist tb) qq = Inr s1" "length s1 = k"
    using times_n_over_q_ok[of "map uminus rcn" "nlist tb" qq] sh len by auto
  obtain rdot where rdot: "irfft1D c1 s1 1 = Inr rdot" "length rdot = ?L"
    using irfft1D_ok[of s1 c1 1] c1 s1 k by auto
  obtain c2 where c2: "times_n_over_q tsn (nlist tb) qq = Inr c2" "length c2 = k"
    using times_n_over_q_ok[of tsn "nlist tb" qq] sh len by auto
  obtain s2 where s2: "times_n_over_q (map uminus tcn) (nlist tb) qq = Inr s2" "length s2 = k"
    using times_n_over_q_ok[of "map uminus tcn" "nlist tb" qq] sh len by auto
  obtain td where td: "irfft1D c2 s2 1 = Inr td" "length td = ?L"
    using irfft1D_ok[of s2 c2 1] c2 s2 k by auto
  have "curve_real self iota qq rcn tsn rsn tcn
      = Inr (RealCurve r t1 ?z rdot (map (\<lambda>x. x + iota) td))"
    unfolding curve_real_def Let_def using t r t0 t1 c1 s1 rdot c2 s2 td by simp
  then show ?thesis using r t1 rdot td by auto
qed

lemma assign_slice_keep:
  assumes "0 < a" "a \<le> length ff" "length v = min (b - a) (length ff - a)"
  obtains ff' where "assign_slice ff a b v = Inr ff'" "length ff' = length ff" "ff' ! 0 = ff ! 0"
  using assign_slice_ok[of a ff v b] assms by (auto simp: slice_length)

lemma sub_slice_ok:
  assumes "length a1 = qN + 1" "qN + 1 \<le> length c"
  obtains v where "broadcast2 (-) a1 (slice 0 (qN + 1) c) = Inr v" "length v = qN + 1"
  using broadcast2_ok[of a1 "slice 0 (qN + 1) c" "(-)"] assms by (auto simp: slice_length)

lemma residual_fourier_ok:
  assumes qN: "1 \<le> qN"
    and nl: "length (nlist tb) = qN + 1"
    and len: "length rcn = qN + 1" "length tsn = qN + 1" "length rsn = qN + 1"
      "length tcn = qN + 1"
    and rhs: "length rhs_tdot = N" "length rhs_rdot = N" "2 * qN \<le> N"
    and ff: "length ff = 4 * qN + 1"
  shows "\<exists>ff'. residual_fourier tb iota qq qN rcn tsn rsn tcn rhs_tdot rhs_rdot ff = Inr ff'
           \<and> length ff' = length ff \<and> ff' ! 0 = ff ! 0"
proof -
  have ne: "rhs_tdot \<noteq> []" "rhs_rdot \<noteq> []" using rhs qN by auto
  have half: "qN + 1 \<le> N div 2 + 1" using rhs(3) by simp
  obtain tc ts where t: "rfft1D rhs_tdot = Inr (tc, ts)"
      "length tc = N div 2 + 1" "length ts = N div 2 + 1"
    using rfft1D_ok[OF ne(1)] rhs by auto
  obtain rc rs where r: "rfft1D rhs_rdot = Inr (rc, rs)"
      "length rc = N div 2 + 1" "length rs = N div 2 + 1"
    using rfft1D_ok[OF ne(2)] rhs by auto
  obtain a1 where a1: "times_n_over_q rsn (nlist tb) qq = Inr a1" "length a1 = qN + 1"
    using times_n_over_q_ok[of rsn "nlist tb" qq] nl len by auto
  obtain v1 where v1: "broadcast2 (-) a1 (slice 0 (qN + 1) rc) = Inr v1" "length v1 = qN + 1"
    using sub_slice_ok[of a1 qN rc] a1 r half by auto
  obtain f1 where f1: "assign_slice ff 1 (qN + 2) v1 = Inr f1" "length f1 = length ff"
      "f1 ! 0 = ff ! 0"
    using assign_slice_keep[of 1 ff v1 "qN + 2"] v1 ff qN by auto
  obtain a2 where a2: "times_n_over_q (map uminus rcn) (nlist tb) qq = Inr a2"
      "length a2 = qN + 1"
    using times_n_over_q_ok[of "map uminus rcn" "nlist tb" qq] nl len by auto
  obtain v2 where v2: "broadcast2 (-) a2 (slice 0 (qN + 1) rs) = Inr v2" "length v2 = qN + 1"
    using sub_slice_ok[of a2 qN rs] a2 r half by auto
  obtain f2 where f2: "assign_slice f1 (qN + 2) (2 * qN + 1) (inner v2) = Inr f2"
      "length f2 = length ff" "f2 ! 0 = ff ! 0"
    using assign_slice_keep[of "qN + 2" f1 "inner v2" "2 * qN + 1"] v2 f1 ff qN
    by (auto simp: length_inner)
  obtain a3 where a3: "times_n_over_q tsn (nlist tb) qq = Inr a3" "length a3 = qN + 1"
    using times_n_over_q_ok[of tsn "nlist tb" qq] nl len by auto
  obtain v3 where v3: "broadcast2 (-) a3 (slice 0 (qN + 1) tc) = Inr v3" "length v3 = qN + 1"
    using sub_slice_ok[of a3 qN tc] a3 t half by auto
  obtain f3 where f3: "assign_slice f2 (2 * qN + 1) (3 * qN + 2) v3 = Inr f3"
      "length f3 = length ff" "f3 ! 0 = ff ! 0"
    using assign_slice_keep[of "2 * qN + 1" f2 v3 "3 * qN + 2"] v3 f2 ff qN by auto
  let ?f4 = "f3[2 * qN + 1 := f3 ! (2 * qN + 1) + iota]"
  have f4: "\<not> length f3 \<le> 2 * qN + 1" "length ?f4 = length ff" "?f4 ! 0 = ff ! 0"
    using f3 ff qN by auto
  obtain a4 where a4: "times_n_over_q (map uminus tcn) (nlist tb) qq = Inr a4"
      "length a4 = qN + 1"
    using times_n_over_q_ok[of "map uminus tcn" "nlist tb" qq] nl len by auto
  obtain v4 where v4: "broadcast2 (-) a4 (slice 0 (qN + 1) ts) = Inr v4" "length v4 = qN + 1"
    using sub_slice_ok[of a4 qN ts] a4 t half by auto
  obtain f5 where f5: "assign_slice ?f4 (3 * qN + 2) (length ?f4) (inner v4) = Inr f5"
      "length f5 = length ff" "f5 ! 0 = ff ! 0"
    using assign_slice_keep[of "3 * qN + 2" ?f4 "inner v4" "length ?f4"] v4 f4 ff qN
    by (auto simp: length_inner)
  have "residual_fourier tb iota qq qN rcn tsn rsn tcn rhs_tdot rhs_rdot ff = Inr f5"
    unfolding residual_fourier_def Let_def
    using t(1) r(1) a1(1) v1(1) f1(1) a2(1) v2(1) f2(1) a3(1) v3(1) f3(1) f4(1) a4(1) v4(1) f5(1)
    by simp
  then show ?thesis using f5 by blast
qed

lemma residual_real_ok:
  assumes qN: "1 \<le> qN"
    and len: "length rdot = 2 * qN" "length tdot = 2 * qN"
      "length rhs_tdot = 2 * qN" "length rhs_rdot = 2 * qN"
    and ff: "length ff = 4 * qN + 1"
  shows "\<exists>ff'. residual_real qN rdot tdot rhs_tdot rhs_rdot ff = Inr ff'
           \<and> length ff' = length ff \<and> ff' ! 0 = ff ! 0"
proof -
  obtain v1 where v1: "broadcast2 (-) rdot rhs_rdot = Inr v1" "length v1 = 2 * qN"
    using broadcast2_ok[of rdot rhs_rdot "(-)"] len by auto
  obtain f1 where f1: "assign_slice ff 1 (2 * qN + 1) v1 = Inr f1" "length f1 = length ff"
      "f1 ! 0 = ff ! 0"
    using assign_slice_keep[of 1 ff v1 "2 * qN + 1"] v1 ff qN by auto
  obtain v2 where v2: "broadcast2 (-) tdot rhs_tdot = Inr v2" "length v2 = 2 * qN"
    using broadcast2_ok[of tdot rhs_tdot "(-)"] len by auto
  obtain f2 where f2: "assign_slice f1 (2 * qN + 1) (length f1) v2 = Inr f2"
      "length f2 = length ff" "f2 ! 0 = ff ! 0"
    using assign_slice_keep[of "2 * qN + 1" f1 v2 "length f1"] v2 f1 ff qN by auto
  have "residual_real qN rdot tdot rhs_tdot rhs_rdot ff = Inr f2"
    unfolding residual_real_def using v1(1) f1(1) v2(1) f2(1) by simp
  then show ?thesis using f2 by blast
qed

lemma stack3_ok:
  assumes "length r = n" "length t = n" "length z = n"
  shows "\<exists>c. stack3 r t z = Inr c \<and> length c = n"
  using assms by (simp add: stack3_def)


lemma action_gradient_ok:
  assumes v: "valid_call self qq xx" and m: "mode = ''fourier'' \<or> mode = ''real''"
  shows "\<exists>ff nv rcn tsn rsn tcn.
           action_gradient self xx pp (int qq) a mode = Inr ff
         \<and> unpack_dof xx = Inr (nv, rcn, tsn, rsn, tcn)
         \<and> length ff = length xx \<and> ff ! 0 = tcn ! 0 - a"
proof -
  define qN where "qN = qq * pqNtor self"
  define tb where "tb = action_tables (MM self) (pqNtor self) (int qq)"
  define N where "N = MM self * qq * pqNtor self"
  from v have qq: "1 \<le> qq" and pn: "1 \<le> pqNtor self" and mm: "2 \<le> MM self"
    and tabs: "tabs self = Some tb" and lxx: "length xx = 4 * qN + 1"
    and B: "\<And>cs. length (B_many self cs) = length cs"
    by (simp_all add: valid_call_def qN_def tb_def)
  have qN: "1 \<le> qN" using qq pn by (simp add: qN_def)
  have N: "2 * qN \<le> N"
    using mm by (simp add: N_def qN_def mult.assoc)
  have sh: "length (nlist tb) = qN + 1" "length (zeta tb) = N"
      "nrows (cnzq tb) = qN + 1" "ncols (cnzq tb) = N"
      "nrows (snzq tb) = qN + 1" "ncols (snzq tb) = N"
    by (simp_all add: tb_def qN_def N_def action_tables_shape)
  have q4: "(length xx - 1) div 4 = qN" using lxx by simp
  have q0: "int qq \<noteq> 0" using qq by simp
  obtain nv rcn tsn rsn tcn where u: "unpack_dof xx = Inr (nv, rcn, tsn, rsn, tcn)"
    and len: "length rcn = qN + 1" "length tsn = qN + 1" "length rsn = qN + 1"
      "length tcn = qN + 1"
    using unpack_dof_valid[OF qN lxx] by blast
  let ?iota = "real_of_int pp / real_of_int (int qq)"
  let ?ff0 = "(replicate (length xx) 0)[0 := tcn ! 0 - a]"
  have ff0: "length ?ff0 = 4 * qN + 1" "?ff0 ! 0 = tcn ! 0 - a"
    using lxx by simp_all
  from m show ?thesis
  proof
    assume mf: "mode = ''fourier''"
    obtain r t z where c: "curve_fourier self ?iota rcn tsn rsn tcn = Inr (FourierCurve r t z)"
      and lc: "length r = N" "length t = N" "length z = N"
      using curve_fourier_ok[OF tabs sh(3,5,4,6,2) len, of ?iota] by blast
    obtain cs where cs: "stack3 r t z = Inr cs" "length cs = N"
      using stack3_ok[OF lc] by blast
    let ?B = "B_many self cs"
    let ?rt = "map2 (/) (map (\<lambda>b. fst (snd b)) ?B) (map (\<lambda>b. snd (snd b)) ?B)"
    let ?rr = "map2 (-) (map2 (/) (map fst ?B) (map (\<lambda>b. snd (snd b)) ?B))
                 (map (\<lambda>g. nv / g) (map (\<lambda>b. snd (snd b)) ?B))"
    have lr: "length ?rt = N" "length ?rr = N" using B[of cs] cs by simp_all
    obtain ff where ff: "residual_fourier tb ?iota (int qq) qN rcn tsn rsn tcn ?rt ?rr ?ff0 = Inr ff"
        "length ff = length ?ff0" "ff ! 0 = ?ff0 ! 0"
      using residual_fourier_ok[OF qN sh(1) len lr N ff0(1), of ?iota "int qq"] by blast
    have "action_gradient self xx pp (int qq) a mode = Inr ff"
      unfolding action_gradient_def Let_def q4 using q0 u mf c cs(1) tabs ff(1) by simp
    then show ?thesis using u ff ff0 lxx by auto
  next
    assume mr: "mode = ''real''"
    have k: "2 \<le> qN + 1" using qN by simp
    obtain r t z rdot tdot where
      c: "curve_real self ?iota (int qq) rcn tsn rsn tcn = Inr (RealCurve r t z rdot tdot)"
      and lc: "length r = 2 * qN" "length t = 2 * qN" "length z = 2 * qN"
      and ld: "length rdot = 2 * qN" "length tdot = 2 * qN"
      using curve_real_ok[OF tabs sh(1) len k, of ?iota "int qq"] by auto
    obtain cs where cs: "stack3 r t z = Inr cs" "length cs = 2 * qN"
      using stack3_ok[OF lc] by blast
    let ?B = "B_many self cs"
    let ?rt = "map2 (/) (map (\<lambda>b. fst (snd b)) ?B) (map (\<lambda>b. snd (snd b)) ?B)"
    let ?rr = "map2 (-) (map2 (/) (map fst ?B) (map (\<lambda>b. snd (snd b)) ?B))
                 (map (\<lambda>g. nv / g) (map (\<lambda>b. snd (snd b)) ?B))"
    have lr: "length ?rt = 2 * qN" "length ?rr = 2 * qN" using B[of cs] cs by simp_all
    obtain ff where ff: "residual_real qN rdot tdot ?rt ?rr ?ff0 = Inr ff"
        "length ff = length ?ff0" "ff ! 0 = ?ff0 ! 0"
      using residual_real_ok[OF qN ld lr ff0(1)] by blast
    have "action_gradient self xx pp (int qq) a mode = Inr ff"
      unfolding action_gradient_def Let_def q4 using q0 u mr c cs(1) ff(1) by simp
    then show ?thesis using u ff ff0 lxx by auto
  qed
qed




text \<open>
  C8: in a call as the root solver makes it, with a known mode, the residual has the
  length of the vector of degrees of freedom, and its first entry is tcn[0] - a for the
  tcn decoded from that vector.
\<close>

theorem action_gradient_residual_shape:
  "valid_call self qq xx \<and> (mode = ''real'' \<or> mode = ''fourier'')
   \<longrightarrow> (\<exists>ff nv rcn tsn rsn tcn.
          action_gradient self xx pp (int qq) a mode = Inr ff
        \<and> unpack_dof xx = Inr (nv, rcn, tsn, rsn, tcn)
        \<and> length ff = length xx \<and> ff ! 0 = tcn ! 0 - a)"
  using action_gradient_ok[of self qq xx mode pp a] by blast

theorem action_gradient_residual_shape_witness:
  "\<exists>ff. action_gradient
      \<lparr>MM = 2, pqNtor = 1, pqMpol = 8, action_gradient_mode = ''real'', Nfp = 1,
       B_many = (\<lambda>cs. cs), tabs = Some (action_tables 2 1 (int 1))\<rparr>
      [1, 2, 3, 4, 5] 1 (int 1) (1 / 2) ''fourier'' = Inr ff
    \<and> length ff = 5 \<and> ff ! 0 = 3 - 1 / 2"
proof -
  have u: "unpack_dof [1, 2, 3, 4, 5] = Inr (0, [1, 2], [0, 0], [0, 0], [3, 4])"
    by (simp add: unpack_dof_def slice_def)
  from action_gradient_residual_shape[of
      "\<lparr>MM = 2, pqNtor = 1, pqMpol = 8, action_gradient_mode = ''real'', Nfp = 1,
       B_many = (\<lambda>cs. cs), tabs = Some (action_tables 2 1 (int 1))\<rparr>"
      1 "[1, 2, 3, 4, 5]" "''fourier''" 1 "1 / 2"]
  show ?thesis unfolding u by (auto simp: valid_call_def)
qed

subsection \<open>The continuation loop\<close>

lemma action_loop_trace:
  assumes "action_loop env js cv = (tr, res)"
  shows "length tr \<le> length js \<and> (\<forall>k<length tr. call_ok env res (length tr) tr js k)"
  using assms
proof (induction js arbitrary: cv tr res)
  case Nil
  then show ?case by simp
next
  case (Cons jpq rest)
  let ?a = "real jpq * env_dt env"
  show ?case
  proof (cases "initial_guess env jpq cv")
    case (Inl e)
    with Cons.prems show ?thesis by (simp add: Let_def)
  next
    case (Inr g)
    obtain nv0 rcn0 tcn0 rsn0 tsn0 where g: "g = (nv0, rcn0, tcn0, rsn0, tsn0)"
      by (cases g) auto
    let ?xx0 = "pack_dof nv0 rcn0 tsn0 rsn0 tcn0"
    let ?sol = "env_root env (residual_for env ?a) ?xx0 (env_method env) (1 / 10 ^ 8)"
    let ?call = "\<lparr>call_jpq = jpq, call_a = ?a, call_x0 = ?xx0, call_outcome = ?sol\<rparr>"
    show ?thesis
    proof (cases ?sol)
      case (Inl e)
      with Cons.prems Inr g have "tr = [?call]" "res = Inl e"
        by (simp_all add: Let_def)
      then show ?thesis using Inl by (simp add: call_ok_def)
    next
      case sol: (Inr sx)
      obtain success x where sx: "sx = (success, x)" by (cases sx) auto
      show ?thesis
      proof (cases success)
        case False
        with Cons.prems Inr g sol sx have "tr = [?call]"
          "res = Inl (RuntimeError
               (not_found_message (env_str_float env) (env_pp env) (env_qq env) ?a))"
          by (simp_all add: Let_def)
        then show ?thesis using sol sx False by (simp add: call_ok_def)
      next
        case True
        show ?thesis
        proof (cases "bind_err (unpack_dof x) (store_curve env jpq cv)")
          case (Inl e)
          with Cons.prems Inr g sol sx True have "tr = [?call]" "res = Inl e"
            by (simp_all add: Let_def)
          then show ?thesis using sol sx True by (simp add: call_ok_def)
        next
          case st: (Inr cv')
          obtain tr' res' where rec: "action_loop env rest cv' = (tr', res')"
            by (cases "action_loop env rest cv'") auto
          with Cons.prems Inr g sol sx True st have tr: "tr = ?call # tr'" and res: "res = res'"
            by (simp_all add: Let_def)
          from Cons.IH[OF rec] have len: "length tr' \<le> length rest"
            and ih: "\<And>k. k < length tr' \<Longrightarrow> call_ok env res' (length tr') tr' rest k"
            by auto
          have "call_ok env res (length tr) tr (jpq # rest) k" if k: "k < length tr" for k
          proof (cases k)
            case 0
            then show ?thesis using tr sol sx True by (simp add: call_ok_def)
          next
            case (Suc k')
            with k tr have "k' < length tr'" by simp
            from ih[OF this] have c: "call_ok env res' (length tr') tr' rest k'" .
            have e: "tr ! k = tr' ! k'" "(jpq # rest) ! k = rest ! k'"
              "Suc k = length tr \<longleftrightarrow> Suc k' = length tr'"
              using tr Suc by simp_all
            show ?thesis
              unfolding call_ok_def e res using c[unfolded call_ok_def] by blast
          qed
          then show ?thesis using len tr by simp
        qed
      qed
    qed
  qed
qed

lemma action_curves_loop:
  assumes "action_curves self solver sf pp qq rguess method = (tr, res)" "tr \<noteq> []"
  shows "action_loop (action_env self solver sf pp qq rguess method) [0..<MM self * pqNtor self]
           \<lparr>rcnarr = replicate (MM self * pqNtor self)
                       (replicate (env_ncol (action_env self solver sf pp qq rguess method)) 0),
            tcnarr = replicate (MM self * pqNtor self)
                       (replicate (env_ncol (action_env self solver sf pp qq rguess method)) 0),
            rsnarr = replicate (MM self * pqNtor self)
                       (replicate (env_ncol (action_env self solver sf pp qq rguess method)) 0),
            tsnarr = replicate (MM self * pqNtor self)
                       (replicate (env_ncol (action_env self solver sf pp qq rguess method)) 0),
            nvarr = replicate (MM self * pqNtor self) 0\<rparr> = (tr, res)"
  using assms by (auto simp: action_curves_def Let_def split: if_splits)

declare str_nat.simps [simp del]

lemma digit_inj:
  assumes "n < 10" "m < 10" "''0123456789'' ! n = ''0123456789'' ! m"
  shows "n = m"
proof -
  have "distinct ''0123456789''" by simp
  moreover have "n < length ''0123456789''" "m < length ''0123456789''" using assms by simp_all
  ultimately show ?thesis using assms(3) by (simp add: nth_eq_iff_index_eq)
qed

lemma digit_mem: "n < 10 \<Longrightarrow> ''0123456789'' ! n \<in> set ''0123456789''"
  by (rule nth_mem) simp

lemma str_nat_small: "n < 10 \<Longrightarrow> str_nat n = [''0123456789'' ! n]"
  by (simp add: str_nat.simps)

lemma str_nat_large:
  "\<not> n < 10 \<Longrightarrow> str_nat n = str_nat (n div 10) @ [''0123456789'' ! (n mod 10)]"
  by (subst str_nat.simps) simp

lemma str_nat_digits: "set (str_nat n) \<subseteq> set ''0123456789''"
proof (induction n rule: less_induct)
  case (less n)
  show ?case
  proof (cases "n < 10")
    case True
    then show ?thesis using digit_mem[of n] by (simp add: str_nat_small)
  next
    case False
    then have "n div 10 < n" by simp
    from less.IH[OF this] digit_mem[of "n mod 10"] False show ?thesis
      by (simp add: str_nat_large)
  qed
qed

lemma str_nat_nonempty: "str_nat n \<noteq> []"
  by (cases "n < 10") (simp_all add: str_nat_small str_nat_large)

lemma str_nat_inj: "str_nat n = str_nat m \<Longrightarrow> n = m"
proof (induction n arbitrary: m rule: less_induct)
  case (less n)
  show ?case
  proof (cases "n < 10")
    case n: True
    show ?thesis
    proof (cases "m < 10")
      case True
      with n less.prems show ?thesis by (simp add: str_nat_small digit_inj)
    next
      case False
      with n less.prems str_nat_nonempty[of "m div 10"] show ?thesis
        by (simp add: str_nat_small str_nat_large)
    qed
  next
    case n: False
    show ?thesis
    proof (cases "m < 10")
      case True
      with n less.prems str_nat_nonempty[of "n div 10"] show ?thesis
        by (simp add: str_nat_small str_nat_large)
    next
      case False
      with n less.prems have a: "str_nat (n div 10) = str_nat (m div 10)"
        and b: "''0123456789'' ! (n mod 10) = ''0123456789'' ! (m mod 10)"
        by (simp_all add: str_nat_large)
      from n have "n div 10 < n" by simp
      from less.IH[OF this a] have "n div 10 = m div 10" .
      moreover from b have "n mod 10 = m mod 10" by (intro digit_inj) simp_all
      ultimately show ?thesis by (metis div_mult_mod_eq)
    qed
  qed
qed

lemma str_nat_no_minus: "hd (str_nat n) \<noteq> CHR ''-''"
proof -
  have "hd (str_nat n) \<in> set (str_nat n)" using str_nat_nonempty by simp
  with str_nat_digits[of n] show ?thesis by auto
qed

lemma str_int_inj: "inj str_int"
proof (rule injI)
  fix i j :: int assume e: "str_int i = str_int j"
  show "i = j"
  proof (cases "i < 0"; cases "j < 0")
    assume "i < 0" "j < 0"
    with e have "nat (- i) = nat (- j)" by (simp add: str_int_def str_nat_inj)
    with \<open>i < 0\<close> \<open>j < 0\<close> show ?thesis by simp
  next
    assume "i < 0" "\<not> j < 0"
    with e have "CHR ''-'' # str_nat (nat (- i)) = str_nat (nat j)" by (simp add: str_int_def)
    then have "hd (str_nat (nat j)) = CHR ''-''" by (metis list.sel(1))
    with str_nat_no_minus[of "nat j"] show ?thesis by simp
  next
    assume "\<not> i < 0" "j < 0"
    with e have "str_nat (nat i) = CHR ''-'' # str_nat (nat (- j))" by (simp add: str_int_def)
    then have "hd (str_nat (nat i)) = CHR ''-''" by (metis list.sel(1))
    with str_nat_no_minus[of "nat i"] show ?thesis by simp
  next
    assume "\<not> i < 0" "\<not> j < 0"
    with e have "nat i = nat j" by (simp add: str_int_def str_nat_inj)
    with \<open>\<not> i < 0\<close> \<open>\<not> j < 0\<close> show ?thesis by simp
  qed
qed

lemma replicate2: "replicate 2 x = [x, x]"
  by (simp add: numeral_2_eq_2)

lemma example_run:
  "action_curves
      \<lparr>MM = 2, pqNtor = Suc 0, pqMpol = 8, action_gradient_mode = ''real'', Nfp = 1,
        B_many = (\<lambda>cs. cs), tabs = None\<rparr>
      (\<lambda>f x0 m tol. Inr (x0 ! 3 = 1, x0)) (\<lambda>a. if a = pi then ''3.14'' else ''0.0'') (- 12) 1 (1 / 2) ''hybr''
   = ([\<lparr>call_jpq = 0, call_a = 0, call_x0 = [1, 3 / 2, 1, 1, 1],
        call_outcome = Inr (True, [1, 3 / 2, 1, 1, 1])\<rparr>,
       \<lparr>call_jpq = 1, call_a = pi, call_x0 = [1, 3 / 2, 1, pi + 1, 1],
        call_outcome = Inr (False, [1, 3 / 2, 1, pi + 1, 1])\<rparr>],
      Inl (RuntimeError ''QFM orbit for pp=-12,qq=1,a=3.14 not found.''))"
proof -
  let ?solver = "(\<lambda>f x0 m tol. Inr (x0 ! 3 = 1, x0))
     :: (real list \<Rightarrow> error + real list) \<Rightarrow> real list \<Rightarrow> string \<Rightarrow> real \<Rightarrow> error + (bool \<times> real list)"
  define env where "env = action_env \<lparr>MM = 2, pqNtor = Suc 0, pqMpol = 8, action_gradient_mode = ''real'', Nfp = 1,
        B_many = (\<lambda>cs. cs), tabs = None\<rparr> ?solver (\<lambda>a. if a = pi then ''3.14'' else ''0.0'') (- 12) 1 (1 / 2) ''hybr''"
  have e: "env_ncol env = 2" "env_dt env = pi" "env_rguess env = 1 / 2" "env_root env = ?solver"
     "env_str_float env = (\<lambda>a. if a = pi then ''3.14'' else ''0.0'')" "env_pp env = - 12" "env_qq env = 1" "env_method env = ''hybr''"
    by (simp_all add: env_def action_env_def)
  define cv0 where "cv0 = \<lparr>rcnarr = [[0, 0], [0, 0]], tcnarr = [[0, 0], [0, 0]],
      rsnarr = [[0, 0], [0, 0]], tsnarr = [[0, 0::real], [0, 0]], nvarr = [0, 0::real]\<rparr>"
  define cv1 where "cv1 = \<lparr>rcnarr = [[1 / 2, 0], [0, 0]], tcnarr = [[0, 0], [0, 0]],
      rsnarr = [[0, 0], [0, 0]], tsnarr = [[0, 0::real], [0, 0]], nvarr = [0, 0::real]\<rparr>"
  have g0: "initial_guess env 0 cv0 = Inr (0, [1 / 2, 0], [0, 0], [0, 0], [0, 0])"
    by (simp add: initial_guess_def e replicate2 Let_def)
  have p0: "pack_dof 0 [1 / 2, 0] [0, 0] [0, 0] [0, 0] = [1, 3 / 2, 1, 1, 1]"
    by (simp add: pack_dof_def inner_def)
  have u0: "unpack_dof [1, 3 / 2, 1, 1, 1] = Inr (0, [1 / 2, 0], [0, 0], [0, 0], [0, 0])"
    by (simp add: unpack_dof_def slice_def)
  have s0: "store_curve env 0 cv0 (0, [1 / 2, 0], [0, 0], [0, 0], [0, 0]) = Inr cv1"
    by (simp add: store_curve_def assign_row_def e cv0_def cv1_def)
  have g1: "initial_guess env (Suc 0) cv1 = Inr (0, [1 / 2, 0], [pi, 0], [0, 0], [0, 0])"
    by (simp add: initial_guess_def e cv1_def Let_def)
  have p1: "pack_dof 0 [1 / 2, 0] [0, 0] [0, 0] [pi, 0] = [1, 3 / 2, 1, pi + 1, 1]"
    by (simp add: pack_dof_def inner_def)
  have m: "not_found_message (\<lambda>a. if a = pi then ''3.14'' else ''0.0'') (- 12) 1 pi = ''QFM orbit for pp=-12,qq=1,a=3.14 not found.''"
    by (simp add: not_found_message_def str_int_def str_nat.simps)
  have l1: "action_loop env [Suc 0] cv1
     = ([\<lparr>call_jpq = 1, call_a = pi, call_x0 = [1, 3 / 2, 1, pi + 1, 1],
        call_outcome = Inr (False, [1, 3 / 2, 1, pi + 1, 1])\<rparr>],
        Inl (RuntimeError ''QFM orbit for pp=-12,qq=1,a=3.14 not found.''))"
    unfolding action_loop.simps(2)[of env "Suc 0" "[]" cv1] g1 by (simp add: p1 e m Let_def)
  have l0: "action_loop env [0, Suc 0] cv0
     = ([\<lparr>call_jpq = 0, call_a = 0, call_x0 = [1, 3 / 2, 1, 1, 1],
        call_outcome = Inr (True, [1, 3 / 2, 1, 1, 1])\<rparr>,
       \<lparr>call_jpq = 1, call_a = pi, call_x0 = [1, 3 / 2, 1, pi + 1, 1],
        call_outcome = Inr (False, [1, 3 / 2, 1, pi + 1, 1])\<rparr>],
        Inl (RuntimeError ''QFM orbit for pp=-12,qq=1,a=3.14 not found.''))"
    unfolding action_loop.simps(2)[of env 0 "[Suc 0]" cv0] g0
    by (simp add: p0 e u0 s0 l1 Let_def del: action_loop.simps)
  show ?thesis
    unfolding action_curves_def by (simp add: env_def[symmetric] e upt2 replicate2 cv0_def[symmetric] l0 Let_def del: action_loop.simps)
qed

text \<open>
  C6: whenever a call of the root solver made by \<^verbatim>\<open>action\<close> reports
  non-convergence, that call is the last one the run makes (no later curve is tried and
  the curve is not tried again), and the run ends in the RuntimeError whose message is
  "QFM orbit for pp=", the text of pp, ",qq=", the text of qq, ",a=", the text of the area
  target a of that curve, and " not found."; the text of an integer determines the
  integer; every call of the run is the one call for its curve index, with the method
  given and the tolerance 1e-8.
\<close>

theorem action_nonconvergence_fatal:
  assumes run: "action_curves self solver str_float pp qq rguess method = (tr, res)"
    and k: "k < length tr"
    and fail: "call_outcome (tr ! k) = Inr (False, x)"
  shows "Suc k = length tr
       \<and> res = Inl (RuntimeError
                 (''QFM orbit for pp='' @ str_int pp @ '',qq='' @ str_int qq @ '',a=''
                    @ str_float (call_a (tr ! k)) @ '' not found.''))
       \<and> inj str_int
       \<and> call_a (tr ! k) = real k * ((2 * pi / real_of_int qq) / real (MM self * pqNtor self))
       \<and> (\<forall>i<length tr. call_jpq (tr ! i) = i
            \<and> call_outcome (tr ! i)
                = solver (residual_for (action_env self solver str_float pp qq rguess method)
                            (call_a (tr ! i)))
                    (call_x0 (tr ! i)) method (1 / 10 ^ 8))"
proof -
  let ?env = "action_env self solver str_float pp qq rguess method"
  let ?fM = "MM self * pqNtor self"
  from k have ne: "tr \<noteq> []" by auto
  from action_loop_trace[OF action_curves_loop[OF run ne]]
  have len: "length tr \<le> ?fM"
    and ok: "\<And>i. i < length tr \<Longrightarrow> call_ok ?env res (length tr) tr [0..<?fM] i"
    by auto
  have idx: "[0..<?fM] ! i = i" if "i < length tr" for i
    using that len by simp
  have env: "env_dt ?env = (2 * pi / real_of_int qq) / real ?fM" "env_root ?env = solver"
      "env_method ?env = method" "env_str_float ?env = str_float" "env_pp ?env = pp"
      "env_qq ?env = qq"
    by (simp_all add: action_env_def)
  from ok[OF k] have c: "call_ok ?env res (length tr) tr [0..<?fM] k" .
  from c fail have A: "Suc k = length tr"
    and B: "res = Inl (RuntimeError (not_found_message str_float pp qq (call_a (tr ! k))))"
    unfolding call_ok_def env by blast+
  from c have "call_a (tr ! k) = real ([0..<?fM] ! k) * env_dt ?env"
    unfolding call_ok_def by blast
  then have C: "call_a (tr ! k) = real k * ((2 * pi / real_of_int qq) / real ?fM)"
    unfolding idx[OF k] env .
  have D: "call_jpq (tr ! i) = i
       \<and> call_outcome (tr ! i)
           = solver (residual_for ?env (call_a (tr ! i))) (call_x0 (tr ! i)) method (1 / 10 ^ 8)"
    if i: "i < length tr" for i
  proof -
    from ok[OF i] have "call_jpq (tr ! i) = [0..<?fM] ! i"
      and "call_outcome (tr ! i)
           = env_root ?env (residual_for ?env (call_a (tr ! i))) (call_x0 (tr ! i))
               (env_method ?env) (1 / 10 ^ 8)"
      unfolding call_ok_def by blast+
    then show ?thesis unfolding idx[OF i] env by blast
  qed
  from B have B': "res = Inl (RuntimeError
                 (''QFM orbit for pp='' @ str_int pp @ '',qq='' @ str_int qq @ '',a=''
                    @ str_float (call_a (tr ! k)) @ '' not found.''))"
    by (simp add: not_found_message_def)
  from A B' C D str_int_inj show ?thesis by blast
qed

theorem action_nonconvergence_fatal_witness:
  "snd (action_curves
      \<lparr>MM = 2, pqNtor = Suc 0, pqMpol = 8, action_gradient_mode = ''real'', Nfp = 1,
        B_many = (\<lambda>cs. cs), tabs = None\<rparr>
      (\<lambda>f x0 m tol. Inr (x0 ! 3 = 1, x0)) (\<lambda>a. if a = pi then ''3.14'' else ''0.0'') (- 12) 1 (1 / 2) ''hybr'')
     = Inl (RuntimeError ''QFM orbit for pp=-12,qq=1,a=3.14 not found.'')
   \<and> length (fst (action_curves
      \<lparr>MM = 2, pqNtor = Suc 0, pqMpol = 8, action_gradient_mode = ''real'', Nfp = 1,
        B_many = (\<lambda>cs. cs), tabs = None\<rparr>
      (\<lambda>f x0 m tol. Inr (x0 ! 3 = 1, x0)) (\<lambda>a. if a = pi then ''3.14'' else ''0.0'') (- 12) 1 (1 / 2) ''hybr'')) = 2"
proof -
  note run = example_run
  have k: "Suc 0 < length
      [\<lparr>call_jpq = 0, call_a = 0, call_x0 = [1, 3 / 2, 1, 1, 1],
        call_outcome = Inr (True, [1, 3 / 2, 1, 1, 1])\<rparr>,
       \<lparr>call_jpq = 1, call_a = pi, call_x0 = [1, 3 / 2, 1, pi + 1, 1],
        call_outcome = Inr (False, [1, 3 / 2, 1, pi + 1, 1 :: real])\<rparr>]"
    by simp
  from action_nonconvergence_fatal[OF run k, of "[1, 3 / 2, 1, pi + 1, 1]"]
  show ?thesis
    unfolding run by (simp add: str_int_def str_nat.simps)
qed

subsection \<open>Boundary straightening\<close>

lemma length_idxlist [simp]: "length (idxlist n) = 2 * n + 1"
  by (simp add: idxlist_def)

lemma idxlist_bounds: "i \<in> set (idxlist n) \<Longrightarrow> - int n \<le> i \<and> i \<le> int n"
  by (auto simp: idxlist_def)

lemma norm_indices_ok:
  assumes "n < C"
  shows "\<exists>cols. norm_indices C (idxlist n) = Inr cols \<and> length cols = 2 * n + 1"
proof -
  have "\<forall>i \<in> set (idxlist n). - int C \<le> i \<and> i < int C"
    using idxlist_bounds[of _ n] assms by fastforce
  then show ?thesis by (simp add: norm_indices_def)
qed

lemma length_flatten [simp]: "length (flatten T) = nrows T * ncols T"
  by (simp add: flatten_def length_concat comp_def sum_list_triv)

lemma scatter_cols_ok:
  assumes "n < ncols pad" "nrows src = R0" "R0 \<le> nrows pad" "ncols src = 2 * n + 1"
  shows "\<exists>p. scatter_cols pad R0 (idxlist n) src = Inr p
            \<and> nrows p = nrows pad \<and> ncols p = ncols pad"
proof -
  from norm_indices_ok[OF assms(1)] obtain cols
    where c: "norm_indices (ncols pad) (idxlist n) = Inr cols" "length cols = 2 * n + 1"
    by blast
  have "min R0 (nrows pad) = R0" using assms(3) by simp
  then show ?thesis
    unfolding scatter_cols_def c(1) using assms(2,4) c(2) by (simp add: Let_def)
qed

lemma gather_cols_ok:
  assumes "n < ncols src" "nrows dst = R0" "R0 \<le> nrows src" "ncols dst = 2 * n + 1"
  shows "\<exists>d. gather_cols dst R0 (idxlist n) src = Inr d
            \<and> nrows d = nrows dst \<and> ncols d = ncols dst"
proof -
  from norm_indices_ok[OF assms(1)] obtain cols
    where c: "norm_indices (ncols src) (idxlist n) = Inr cols" "length cols = 2 * n + 1"
    by blast
  have "min R0 (nrows dst) = R0" "min R0 (nrows src) = R0" using assms(2,3) by simp_all
  then show ?thesis
    unfolding gather_cols_def c(1) using assms(4) c(2) by (simp add: Let_def)
qed

lemma np_irfft2_ok:
  assumes "2 \<le> nrows G" "1 \<le> ncols G"
  shows "\<exists>r. np_irfft2 G = Inr r \<and> nrows r = 2 * (nrows G - 1) \<and> ncols r = ncols G"
  using assms by (simp add: np_irfft2_def Let_def)

lemma np_rfft2_ok:
  assumes "1 \<le> nrows f" "1 \<le> ncols f"
  shows "\<exists>F. np_rfft2 f = Inr F \<and> nrows F = nrows f div 2 + 1 \<and> ncols F = ncols f"
  using assms by (simp add: np_rfft2_def Let_def)

lemma scale_row_shape [simp]:
  "nrows (scale_row T r c) = nrows T" "ncols (scale_row T r c) = ncols T"
  by (simp_all add: scale_row_def)

lemma zeros2_shape [simp]: "nrows (zeros2 R C) = R" "ncols (zeros2 R C) = C"
  by (simp_all add: zeros2_def)

lemma irfft2D_ok:
  assumes p: "1 \<le> p" and cn: "nrows cn = p + 1" "ncols cn = 2 * p + 1"
    and sn: "nrows sn = p + 1" "ncols sn = 2 * p + 1"
    and n: "2 * p \<le> n1" "2 * p \<le> n2"
  shows "\<exists>r. irfft2D cn sn n1 n2 = Inr r \<and> nrows r = 2 * (n1 div 2) \<and> ncols r = 2 * (n2 div 2)"
proof -
  let ?h1 = "n1 div 2" and ?h2 = "n2 div 2"
  have h: "p \<le> ?h1" "p \<le> ?h2" using n by simp_all
  have nt: "(ncols cn - 1) div 2 = p" using cn by simp
  let ?z = "zeros2 (?h1 + 1) (2 * ?h2)"
  obtain cp where cp: "scatter_cols ?z (nrows cn) (idxlist p) cn = Inr cp"
      "nrows cp = ?h1 + 1" "ncols cp = 2 * ?h2"
    using scatter_cols_ok[of p ?z cn "nrows cn"] cn h p by auto
  obtain sp where sp: "scatter_cols ?z (nrows cn) (idxlist p) sn = Inr sp"
      "nrows sp = ?h1 + 1" "ncols sp = 2 * ?h2"
    using scatter_cols_ok[of p ?z sn "nrows cn"] cn sn h p by auto
  let ?cp = "scale_row (scale_row cp 0 2) (nrows cp - 1) 2"
  let ?sp = "scale_row (scale_row sp 0 2) (nrows sp - 1) 2"
  let ?G = "\<lparr>nrows = nrows ?cp, ncols = ncols ?cp,
             entry = (\<lambda>m n. Complex (entry ?cp m n) (- entry ?sp m n))\<rparr>"
  obtain r where r: "np_irfft2 ?G = Inr r" "nrows r = 2 * (nrows ?G - 1)" "ncols r = ncols ?G"
    using np_irfft2_ok[of ?G] cp h p by auto
  have "irfft2D cn sn n1 n2
      = Inr (r\<lparr>entry := (\<lambda>j l. entry r j l * real n1 * real n2 / 2)\<rparr>)"
    unfolding irfft2D_def Let_def nt using cp(1) sp(1) r(1) by simp
  then show ?thesis using r cp by simp
qed

lemma rfft2D_ok:
  assumes f: "nrows f = n1" "ncols f = n2" and n: "2 * p \<le> n1" "p < n2" "1 \<le> p"
  shows "\<exists>cn sn. rfft2D f p p = Inr (cn, sn) \<and> nrows cn = p + 1 \<and> ncols cn = 2 * p + 1
            \<and> nrows sn = p + 1 \<and> ncols sn = 2 * p + 1"
proof -
  have pos: "1 \<le> nrows f" "1 \<le> ncols f" using f n by auto
  obtain F where F: "np_rfft2 f = Inr F" "nrows F = n1 div 2 + 1" "ncols F = n2"
    using np_rfft2_ok[OF pos] f by auto
  let ?c0 = "\<lparr>nrows = nrows F, ncols = ncols F,
              entry = (\<lambda>m n. Re (entry F m n) / real (nrows f) / real (ncols f) * 2)\<rparr>"
  let ?c = "scale_row (scale_row ?c0 0 (1 / 2)) (nrows F - 1) (1 / 2)"
  let ?s0 = "\<lparr>nrows = nrows F, ncols = ncols F,
              entry = (\<lambda>m n. - Im (entry F m n) / real (nrows f) / real (ncols f) * 2)\<rparr>"
  let ?s = "scale_row (scale_row ?s0 0 (1 / 2)) (nrows F - 1) (1 / 2)"
  let ?z = "zeros2 (p + 1) (2 * p + 1)"
  have rows: "p + 1 \<le> nrows ?c" "p + 1 \<le> nrows ?s" using F n by simp_all
  obtain cn where cn: "gather_cols ?z (p + 1) (idxlist p) ?c = Inr cn"
      "nrows cn = p + 1" "ncols cn = 2 * p + 1"
    using gather_cols_ok[of p ?c ?z "p + 1"] rows F n by auto
  obtain sn where sn: "gather_cols ?z (p + 1) (idxlist p) ?s = Inr sn"
      "nrows sn = p + 1" "ncols sn = 2 * p + 1"
    using gather_cols_ok[of p ?s ?z "p + 1"] rows F n by auto
  have "rfft2D f p p = Inr (cn, sn)"
    unfolding rfft2D_def Let_def using F(1) cn(1) sn(1) by simp
  then show ?thesis using cn sn by blast
qed

lemma add_column_ok:
  assumes "length th = nrows lam"
  shows "\<exists>t. add_column th lam = Inr t \<and> nrows t = nrows lam \<and> ncols t = ncols lam"
  using assms by (simp add: add_column_def)

lemma reshape2_ok:
  assumes "length v = R * C"
  shows "\<exists>t. reshape2 v R C = Inr t \<and> nrows t = R \<and> ncols t = C"
  using assms by (simp add: reshape2_def)

lemma sb_round_ok:
  assumes v: "valid_config self" and sh: "sb_shape (pqNtor self) st"
  shows "\<exists>st'. sb_round self rho (pqNtor self) (pqNtor self) st = Inr st'
            \<and> sb_shape (pqNtor self) st'"
proof -
  define p where "p = pqNtor self"
  define n where "n = MM self * p"
  obtain iota cn sn where st: "st = (iota, cn, sn)" by (cases st) auto
  from v have p: "1 \<le> p" and mm: "2 \<le> MM self" "even (MM self)"
    and B: "\<And>cs. length (B_many self cs) = length cs"
    by (simp_all add: valid_config_def p_def)
  from sh st have shp: "nrows cn = p + 1" "ncols cn = 2 * p + 1" "nrows sn = p + 1"
      "ncols sn = 2 * p + 1"
    by (simp_all add: sb_shape_def p_def)
  have n2: "2 * p \<le> n" using mm(1) by (simp add: n_def)
  have ev: "2 * (n div 2) = n" using mm(2) by (simp add: n_def)
  have pn: "p < n" using n2 p by simp
  obtain lr where lr: "irfft2D cn sn n n = Inr lr" "nrows lr = n" "ncols lr = n"
    using irfft2D_ok[OF p shp n2 n2] ev by auto
  obtain tarr where tarr: "add_column (linspace 0 (pi * 2) n) lr = Inr tarr"
      "nrows tarr = n" "ncols tarr = n"
    using add_column_ok[of "linspace 0 (pi * 2) n" lr] lr by auto
  let ?rarr = "replicate (n * n) rho"
  let ?zarr = "concat (replicate n (linspace 0 (pi * 2) n))"
  have lz: "length ?zarr = n * n"
    by (simp add: length_concat sum_list_replicate)
  obtain coords where coords: "stack3 ?rarr (flatten tarr) ?zarr = Inr coords"
      "length coords = n * n"
    using stack3_ok[of ?rarr "n * n" "flatten tarr" ?zarr] tarr lz by auto
  let ?B = "B_many self coords"
  have lB: "length ?B = n * n" using B coords by simp
  obtain Bs where Bs: "reshape2 (map fst ?B) n n = Inr Bs"
    using reshape2_ok[of "map fst ?B" n n] lB by auto
  obtain Bt where Bt: "reshape2 (map (\<lambda>b. fst (snd b)) ?B) n n = Inr Bt"
      "nrows Bt = n" "ncols Bt = n"
    using reshape2_ok[of "map (\<lambda>b. fst (snd b)) ?B" n n] lB by auto
  obtain Bz where Bz: "reshape2 (map (\<lambda>b. snd (snd b)) ?B) n n = Inr Bz"
    using reshape2_ok[of "map (\<lambda>b. snd (snd b)) ?B" n n] lB by auto
  let ?ratio = "\<lparr>nrows = nrows Bt, ncols = ncols Bt,
                  entry = (\<lambda>i j. entry Bt i j / entry Bz i j)\<rparr>"
  obtain c s where cs: "rfft2D ?ratio p p = Inr (c, s)"
    using rfft2D_ok[of ?ratio n n p] Bt n2 pn p by auto
  let ?cn' = "cn\<lparr>entry := (\<lambda>m k.
            if m < nrows cn \<and> k < ncols cn \<and> (m, k) \<noteq> (0, 0)
            then entry s m k / (- real m * entry c 0 0 + nlist_entry (Nfp self) p k)
            else if (m, k) = (0, 0) then 0 else entry cn m k)\<rparr>"
  let ?sn' = "sn\<lparr>entry := (\<lambda>m k.
            if m < nrows sn \<and> k < ncols sn \<and> (m, k) \<noteq> (0, 0)
            then entry c m k / (real m * entry c 0 0 - nlist_entry (Nfp self) p k)
            else if (m, k) = (0, 0) then 0 else entry sn m k)\<rparr>"
  have "sb_round self rho p p st = Inr (entry c 0 0, ?cn', ?sn')"
    unfolding sb_round_def st Let_def n_def[symmetric]
    using lr(1) tarr(1) coords(1) Bs Bt(1) Bz cs by simp
  moreover have "sb_shape p (entry c 0 0, ?cn', ?sn')"
    using shp by (simp add: sb_shape_def)
  ultimately show ?thesis unfolding p_def by blast
qed

lemma abs_diff_nonempty:
  assumes "1 \<le> nrows A" "1 \<le> ncols A"
  shows "abs_diff A B \<noteq> []"
proof -
  have "length (abs_diff A B) = nrows A * ncols A" by (simp add: abs_diff_def)
  with assms show ?thesis by (metis length_0_conv mult_is_0 not_one_le_zero)
qed

lemma sb_converged_small:
  assumes "sb_shape p st'"
  shows "sb_converged tol st st' = Inr (sb_small tol st st')"
proof -
  obtain i0 c0 s0 where st: "st = (i0, c0, s0)" by (cases st) auto
  obtain i1 c1 s1 where st': "st' = (i1, c1, s1)" by (cases st') auto
  from assms st' have "abs_diff c1 c0 \<noteq> []" "abs_diff s1 s0 \<noteq> []"
    by (simp_all add: sb_shape_def abs_diff_nonempty)
  then show ?thesis
    unfolding st st' sb_converged_def sb_small_def by (simp add: np_max_def Let_def)
qed

lemma sb_rounds_shift:
  "sb_rounds self rho m n (Suc k) st
     = bind_err (sb_round self rho m n st) (sb_rounds self rho m n k)"
proof (induction k)
  case 0
  show ?case by (cases "sb_round self rho m n st") simp_all
next
  case (Suc k)
  have "sb_rounds self rho m n (Suc (Suc k)) st
      = bind_err (sb_rounds self rho m n (Suc k) st) (sb_round self rho m n)" by simp
  also have "\<dots> = bind_err (bind_err (sb_round self rho m n st) (sb_rounds self rho m n k))
      (sb_round self rho m n)" by (simp only: Suc.IH)
  also have "\<dots> = bind_err (sb_round self rho m n st) (sb_rounds self rho m n (Suc k))"
    by (cases "sb_round self rho m n st") simp_all
  finally show ?case .
qed

lemma sb_loop_stops:
  assumes v: "valid_config self" and p: "p = pqNtor self"
  shows "sb_shape p st \<Longrightarrow>
     \<exists>k st'. k \<le> n \<and> sb_rounds self rho p p k st = Inr st'
        \<and> sb_loop self rho tol p p n st = Inr st' \<and> sb_shape p st'
        \<and> (\<forall>j. Suc j < k \<longrightarrow> (\<exists>s s'. sb_rounds self rho p p j st = Inr s
                \<and> sb_rounds self rho p p (Suc j) st = Inr s' \<and> \<not> sb_small tol s s'))
        \<and> (k < n \<longrightarrow> (\<exists>s. 1 \<le> k \<and> sb_rounds self rho p p (k - 1) st = Inr s
                \<and> sb_small tol s st'))"
proof (induction n arbitrary: st)
  case 0
  then show ?case by (intro exI[of _ 0] exI[of _ st]) simp
next
  case (Suc n)
  from sb_round_ok[OF v, of st rho] Suc.prems p
  obtain st1 where r: "sb_round self rho p p st = Inr st1" and sh1: "sb_shape p st1"
    by auto
  have c: "sb_converged tol st st1 = Inr (sb_small tol st st1)"
    using sh1 by (rule sb_converged_small)
  have r1: "sb_rounds self rho p p (Suc 0) st = Inr st1" using r by simp
  show ?case
  proof (cases "sb_small tol st st1")
    case True
    have "sb_loop self rho tol p p (Suc n) st = Inr st1" using r c True by simp
    with r1 sh1 True show ?thesis
      by (intro exI[of _ "Suc 0"] exI[of _ st1]) simp
  next
    case False
    have l: "sb_loop self rho tol p p (Suc n) st = sb_loop self rho tol p p n st1"
      using r c False by simp
    from Suc.IH[OF sh1] obtain k st' where k: "k \<le> n"
      and rk: "sb_rounds self rho p p k st1 = Inr st'"
      and lk: "sb_loop self rho tol p p n st1 = Inr st'" and shk: "sb_shape p st'"
      and before: "\<And>j. Suc j < k \<Longrightarrow> \<exists>s s'. sb_rounds self rho p p j st1 = Inr s
                \<and> sb_rounds self rho p p (Suc j) st1 = Inr s' \<and> \<not> sb_small tol s s'"
      and early: "k < n \<Longrightarrow> \<exists>s. 1 \<le> k \<and> sb_rounds self rho p p (k - 1) st1 = Inr s
                \<and> sb_small tol s st'"
      by blast
    have shift: "sb_rounds self rho p p (Suc i) st = sb_rounds self rho p p i st1" for i
      unfolding sb_rounds_shift r by simp
    have b': "\<exists>s s'. sb_rounds self rho p p j st = Inr s
                \<and> sb_rounds self rho p p (Suc j) st = Inr s' \<and> \<not> sb_small tol s s'"
      if j: "Suc j < Suc k" for j
    proof (cases j)
      case 0
      then show ?thesis using r1 False by auto
    next
      case (Suc j')
      with j have "Suc j' < k" by simp
      from before[OF this] show ?thesis unfolding Suc shift .
    qed
    have e': "\<exists>s. 1 \<le> Suc k \<and> sb_rounds self rho p p (Suc k - 1) st = Inr s
                \<and> sb_small tol s st'" if "Suc k < Suc n"
    proof -
      from that have "k < n" by simp
      from early[OF this] obtain s where k1: "1 \<le> k"
        and s: "sb_rounds self rho p p (k - 1) st1 = Inr s" "sb_small tol s st'" by blast
      from k1 obtain k' where k': "k = Suc k'" by (cases k) auto
      have "sb_rounds self rho p p (Suc k - 1) st = sb_rounds self rho p p (k - 1) st1"
        unfolding k' using shift[of k'] by simp
      with s show ?thesis by auto
    qed
    show ?thesis
      apply (intro exI[of _ "Suc k"] exI[of _ st'] conjI)
      using k apply simp
      using rk shift apply simp
      using l lk apply simp
      using shk apply simp
      using b' apply blast
      using e' apply blast
      done
  qed
qed

lemma sb_start_shape: "sb_shape (pqNtor self) (sb_start self)"
  by (simp add: sb_shape_def sb_start_def)

lemma straighten_boundary_loop:
  "straighten_boundary self rho tol niter
     = bind_err (sb_loop self rho tol (pqNtor self) (pqNtor self) (nat niter) (sb_start self))
         (\<lambda>(iota, lambda_cn, lambda_sn). Inr (iota, lambda_sn, lambda_cn))"
  by (simp add: straighten_boundary_def sb_start_def Let_def)

lemma straighten_boundary_returns:
  assumes "valid_config self"
  shows "\<exists>iota lsn lcn. straighten_boundary self rho tol niter = Inr (iota, lsn, lcn)"
proof -
  from sb_loop_stops[OF assms refl sb_start_shape, of "nat niter" rho tol]
  obtain st' where "sb_loop self rho tol (pqNtor self) (pqNtor self) (nat niter) (sb_start self)
      = Inr st'" by blast
  then show ?thesis
    unfolding straighten_boundary_loop by (cases st') simp
qed

lemma sb_round_shape:
  assumes "sb_round self rho m n st = Inr st'" "sb_shape p st"
  shows "sb_shape p st'"
  using assms
  by (auto simp: sb_round_def Let_def bind_err_Inr_iff sb_shape_def split: prod.splits)

lemma sb_loop_shape:
  "sb_loop self rho tol m n k st = Inr st' \<Longrightarrow> sb_shape p st \<Longrightarrow> sb_shape p st'"
proof (induction k arbitrary: st)
  case 0
  then show ?case by simp
next
  case (Suc k)
  from Suc.prems(1) obtain st1 stop where r: "sb_round self rho m n st = Inr st1"
    and c: "sb_converged tol st st1 = Inr stop"
    and l: "(if stop then Inr st1 else sb_loop self rho tol m n k st1) = Inr st'"
    by (auto simp: bind_err_Inr_iff)
  from sb_round_shape[OF r Suc.prems(2)] have sh1: "sb_shape p st1" .
  show ?case
  proof (cases stop)
    case True
    with l sh1 show ?thesis by simp
  next
    case False
    with l have "sb_loop self rho tol m n k st1 = Inr st'" by simp
    from Suc.IH[OF this sh1] show ?thesis .
  qed
qed

lemma sb_round_pqMpol: "sb_round (self\<lparr>pqMpol := m\<rparr>) = sb_round self"
  by (simp add: sb_round_def fun_eq_iff Let_def cong: if_cong)

lemma sb_loop_pqMpol:
  "sb_loop (self\<lparr>pqMpol := m\<rparr>) rho tol a b k st = sb_loop self rho tol a b k st"
  by (induction k arbitrary: st) (simp_all add: sb_round_pqMpol cong: if_cong)

text \<open>
  C9: on a configuration on which the rounds run (\<open>valid_config\<close>),
  \<^verbatim>\<open>straighten_boundary\<close> returns for every tolerance and every round budget: its
  result is the state after some k \<le> niter rounds; no round before the last one made had
  all three changes (of iota, of the cosine and of the sine spectrum of lambda) below
  tol; and it made fewer than niter rounds only if the last one had all three below tol.
\<close>

theorem straighten_boundary_stops:
  assumes "valid_config self"
  shows "\<exists>k iota lcn lsn. k \<le> nat niter
       \<and> sb_rounds self rho (pqNtor self) (pqNtor self) k (sb_start self) = Inr (iota, lcn, lsn)
       \<and> straighten_boundary self rho tol niter = Inr (iota, lsn, lcn)
       \<and> (\<forall>j. Suc j < k \<longrightarrow>
            (\<exists>s s'. sb_rounds self rho (pqNtor self) (pqNtor self) j (sb_start self) = Inr s
               \<and> sb_rounds self rho (pqNtor self) (pqNtor self) (Suc j) (sb_start self) = Inr s'
               \<and> \<not> sb_small tol s s'))
       \<and> (k < nat niter \<longrightarrow>
            (\<exists>s. 1 \<le> k
               \<and> sb_rounds self rho (pqNtor self) (pqNtor self) (k - 1) (sb_start self) = Inr s
               \<and> sb_small tol s (iota, lcn, lsn)))"
proof -
  let ?p = "pqNtor self"
  from sb_loop_stops[OF assms refl sb_start_shape, of "nat niter" rho tol]
  obtain k st' where k: "k \<le> nat niter"
    and r: "sb_rounds self rho ?p ?p k (sb_start self) = Inr st'"
    and l: "sb_loop self rho tol ?p ?p (nat niter) (sb_start self) = Inr st'"
    and b: "\<forall>j. Suc j < k \<longrightarrow>
            (\<exists>s s'. sb_rounds self rho ?p ?p j (sb_start self) = Inr s
               \<and> sb_rounds self rho ?p ?p (Suc j) (sb_start self) = Inr s'
               \<and> \<not> sb_small tol s s')"
    and e: "k < nat niter \<longrightarrow>
            (\<exists>s. 1 \<le> k \<and> sb_rounds self rho ?p ?p (k - 1) (sb_start self) = Inr s
               \<and> sb_small tol s st')"
    by blast
  obtain iota lcn lsn where st': "st' = (iota, lcn, lsn)" by (cases st') auto
  have "straighten_boundary self rho tol niter = Inr (iota, lsn, lcn)"
    unfolding straighten_boundary_loop l st' by simp
  with k r b e show ?thesis unfolding st' by blast
qed

theorem straighten_boundary_stops_witness:
  "\<exists>k iota lcn lsn. k \<le> 3
     \<and> sb_rounds (\<lparr>MM = 2, pqNtor = Suc 0, pqMpol = 8, action_gradient_mode = ''real'', Nfp = 1,
        B_many = (\<lambda>cs. cs), tabs = None\<rparr>) 1 (Suc 0) (Suc 0) k (sb_start (\<lparr>MM = 2, pqNtor = Suc 0, pqMpol = 8, action_gradient_mode = ''real'', Nfp = 1,
        B_many = (\<lambda>cs. cs), tabs = None\<rparr>)) = Inr (iota, lcn, lsn)
     \<and> straighten_boundary (\<lparr>MM = 2, pqNtor = Suc 0, pqMpol = 8, action_gradient_mode = ''real'', Nfp = 1,
        B_many = (\<lambda>cs. cs), tabs = None\<rparr>) 1 (1 / 10 ^ 9) 3 = Inr (iota, lsn, lcn)"
proof -
  have v: "valid_config (\<lparr>MM = 2, pqNtor = Suc 0, pqMpol = 8, action_gradient_mode = ''real'', Nfp = 1,
        B_many = (\<lambda>cs. cs), tabs = None\<rparr>)" by (simp add: valid_config_def)
  from straighten_boundary_stops[OF v, of 3 1 "1 / 10 ^ 9"]
  show ?thesis by (simp del: sb_rounds.simps) blast
qed

text \<open>
  C10: whatever \<^verbatim>\<open>straighten_boundary\<close> returns, both spectra of lambda have the
  shape (pqNtor + 1, 2 * pqNtor + 1), and the result does not depend on pqMpol.
\<close>

theorem straighten_boundary_shape:
  "(\<forall>iota lsn lcn. straighten_boundary self rho tol niter = Inr (iota, lsn, lcn)
       \<longrightarrow> nrows lsn = pqNtor self + 1 \<and> ncols lsn = 2 * pqNtor self + 1
         \<and> nrows lcn = pqNtor self + 1 \<and> ncols lcn = 2 * pqNtor self + 1)
   \<and> straighten_boundary (self\<lparr>pqMpol := m\<rparr>) rho tol niter
       = straighten_boundary self rho tol niter"
proof -
  have a: "nrows lsn = pqNtor self + 1 \<and> ncols lsn = 2 * pqNtor self + 1
         \<and> nrows lcn = pqNtor self + 1 \<and> ncols lcn = 2 * pqNtor self + 1"
    if "straighten_boundary self rho tol niter = Inr (iota, lsn, lcn)" for iota lsn lcn
  proof -
    from that
    have "sb_loop self rho tol (pqNtor self) (pqNtor self) (nat niter) (sb_start self)
        = Inr (iota, lcn, lsn)"
      unfolding straighten_boundary_loop by (auto simp: bind_err_Inr_iff)
    from sb_loop_shape[OF this sb_start_shape] show ?thesis
      by (simp add: sb_shape_def)
  qed
  have b: "straighten_boundary (self\<lparr>pqMpol := m\<rparr>) rho tol niter
       = straighten_boundary self rho tol niter"
    unfolding straighten_boundary_loop by (simp add: sb_loop_pqMpol sb_start_def)
  from a b show ?thesis by blast
qed

theorem straighten_boundary_shape_witness:
  "\<exists>iota lsn lcn. straighten_boundary (\<lparr>MM = 2, pqNtor = Suc 0, pqMpol = 8, action_gradient_mode = ''real'', Nfp = 1,
        B_many = (\<lambda>cs. cs), tabs = None\<rparr>) 1 (1 / 10 ^ 9) 3 = Inr (iota, lsn, lcn)
     \<and> straighten_boundary ((\<lparr>MM = 2, pqNtor = Suc 0, pqMpol = 8, action_gradient_mode = ''real'', Nfp = 1,
        B_many = (\<lambda>cs. cs), tabs = None\<rparr>)\<lparr>pqMpol := 2\<rparr>) 1 (1 / 10 ^ 9) 3 = Inr (iota, lsn, lcn)
     \<and> nrows lsn = 2 \<and> ncols lsn = 3 \<and> nrows lcn = 2 \<and> ncols lcn = 3"
proof -
  have v: "valid_config (\<lparr>MM = 2, pqNtor = Suc 0, pqMpol = 8, action_gradient_mode = ''real'', Nfp = 1,
        B_many = (\<lambda>cs. cs), tabs = None\<rparr>)" by (simp add: valid_config_def)
  from straighten_boundary_returns[OF v, of 1 "1 / 10 ^ 9" 3]
  obtain iota lsn lcn where r: "straighten_boundary (\<lparr>MM = 2, pqNtor = Suc 0, pqMpol = 8, action_gradient_mode = ''real'', Nfp = 1,
        B_many = (\<lambda>cs. cs), tabs = None\<rparr>) 1 (1 / 10 ^ 9) 3 = Inr (iota, lsn, lcn)"
    by blast
  from straighten_boundary_shape[of "\<lparr>MM = 2, pqNtor = Suc 0, pqMpol = 8, action_gradient_mode = ''real'', Nfp = 1,
        B_many = (\<lambda>cs. cs), tabs = None\<rparr>" 1 "1 / 10 ^ 9" 3 2] r
  have "nrows lsn = 2 \<and> ncols lsn = 3 \<and> nrows lcn = 2 \<and> ncols lcn = 3"
    and "straighten_boundary ((\<lparr>MM = 2, pqNtor = Suc 0, pqMpol = 8, action_gradient_mode = ''real'', Nfp = 1,
        B_many = (\<lambda>cs. cs), tabs = None\<rparr>)\<lparr>pqMpol := 2\<rparr>) 1 (1 / 10 ^ 9) 3 = Inr (iota, lsn, lcn)"
    by auto
  with r show ?thesis by blast
qed

subsection \<open>The round trip of the transforms\<close>

text \<open>
  The discrete Fourier transform is inverted by its conjugate: the sum of the N-th roots
  of unity, the inversion of the complex transform, and the inversion of a real signal
  of even length from the first half of its spectrum, as \<^verbatim>\<open>np.fft.irfft\<close> does it.
\<close>

lemma cis_eq_1_imp:
  assumes "cis t = 1"
  shows "\<exists>n::int. t = of_int n * (2 * pi)"
proof -
  from assms have "Re (cis t) = 1" by simp
  then have "cos t = 1" by simp
  then obtain n :: int where "t = of_int n * 2 * pi" using cos_one_2pi_int by blast
  then show ?thesis by (intro exI[of _ n]) simp
qed

lemma cis_2pi_nat [simp]: "cis (2 * pi * real n) = 1"
  by (rule cis_multiple_2pi) simp

lemma unity_sum:
  assumes j: "j < N" and j': "j' < N"
  shows "(\<Sum>k<N. cis (2 * pi * real k * real j / real N)
                * cis (- (2 * pi * real j' * real k / real N)))
         = (if j = j' then of_nat N else 0)"
proof -
  have N: "0 < N" using j by simp
  define t where "t = 2 * pi * (real j - real j') / real N"
  define w where "w = cis t"
  have trm: "cis (2 * pi * real k * real j / real N)
                * cis (- (2 * pi * real j' * real k / real N)) = w ^ k" for k
  proof -
    have "2 * pi * real k * real j / real N + - (2 * pi * real j' * real k / real N)
        = real k * t"
      unfolding t_def using N by (simp add: field_simps)
    then show ?thesis unfolding w_def DeMoivre cis_mult by simp
  qed
  have sum: "(\<Sum>k<N. cis (2 * pi * real k * real j / real N)
                * cis (- (2 * pi * real j' * real k / real N))) = (\<Sum>k<N. w ^ k)"
    by (simp add: trm)
  show ?thesis
  proof (cases "j = j'")
    case True
    then have "w = 1" by (simp add: w_def t_def)
    with sum True show ?thesis by simp
  next
    case False
    have w1: "w \<noteq> 1"
    proof
      assume "w = 1"
      then obtain n :: int where n: "t = of_int n * (2 * pi)"
        unfolding w_def using cis_eq_1_imp by blast
      then have "(2 * pi) * ((real j - real j') / real N) = (2 * pi) * of_int n"
        unfolding t_def by (simp add: mult_ac)
      then have "(real j - real j') / real N = of_int n"
        using pi_gt_zero by (simp only: mult_cancel_left) auto
      then have "real j - real j' = of_int n * real N"
        using N by (simp add: field_simps)
      then have "real_of_int (int j - int j') = real_of_int (n * int N)" by simp
      then have e: "int j - int j' = n * int N" by (simp only: of_int_eq_iff)
      have "\<bar>int j - int j'\<bar> < int N" using j j' by linarith
      with e have "\<bar>n\<bar> * int N < int N" by (simp add: abs_mult)
      then have "\<bar>n\<bar> < 1" using N by simp
      then have "n = 0" by simp
      with e False show False by simp
    qed
    have "w ^ N = cis (real N * t)" unfolding w_def DeMoivre ..
    also have "real N * t = 2 * pi * (real j - real j')" unfolding t_def using N by simp
    also have "cis \<dots> = 1"
    proof -
      have "real j - real j' = of_int (int j - int j')" by simp
      then have "real j - real j' \<in> \<int>" by (metis Ints_of_int)
      then show ?thesis by (rule cis_multiple_2pi)
    qed
    finally have wN: "w ^ N = 1" .
    have "(\<Sum>k<N. w ^ k) = (w ^ N - 1) / (w - 1)"
      using geometric_sum[OF w1, of N] by (simp add: atLeast0LessThan)
    with wN sum False show ?thesis by simp
  qed
qed

text \<open>The complex inversion of the discrete Fourier transform.\<close>

lemma dft_inverse:
  fixes f :: "nat \<Rightarrow> complex"
  assumes j: "j < N"
  shows "(\<Sum>k<N. (\<Sum>j'<N. f j' * cis (- (2 * pi * real j' * real k / real N)))
                  * cis (2 * pi * real k * real j / real N))
         = of_nat N * f j"
proof -
  have "(\<Sum>k<N. (\<Sum>j'<N. f j' * cis (- (2 * pi * real j' * real k / real N)))
                  * cis (2 * pi * real k * real j / real N))
      = (\<Sum>k<N. \<Sum>j'<N. f j' * (cis (2 * pi * real k * real j / real N)
                  * cis (- (2 * pi * real j' * real k / real N))))"
    by (simp add: sum_distrib_right sum_distrib_left mult_ac)
  also have "\<dots> = (\<Sum>j'<N. \<Sum>k<N. f j' * (cis (2 * pi * real k * real j / real N)
                  * cis (- (2 * pi * real j' * real k / real N))))"
    by (rule sum.swap)
  also have "\<dots> = (\<Sum>j'<N. f j' * (if j = j' then of_nat N else 0))"
    by (intro sum.cong refl) (simp add: sum_distrib_left[symmetric] unity_sum j)
  also have "\<dots> = (\<Sum>j'<N. if j' = j then f j * of_nat N else 0)"
    by (intro sum.cong refl) auto
  also have "\<dots> = f j * of_nat N" using j by simp
  finally show ?thesis by (simp add: mult_ac)
qed

text \<open>The inversion from the half spectrum of a real signal of even length.\<close>

lemma half_spectrum_inverse:
  fixes f :: "nat \<Rightarrow> real"
  assumes N: "N = 2 * M" and M: "0 < M" and j: "j < N"
  defines "F \<equiv> \<lambda>k. \<Sum>j'<N. of_real (f j') * cis (- (2 * pi * real j' * real k / real N))"
  shows "Re (F 0) + (\<Sum>k = 1..<M. 2 * Re (F k * cis (2 * pi * real k * real j / real N)))
           + Re (F M) * cos (pi * real j)
         = real N * f j"
proof -
  define c where "c = (\<lambda>k. cis (2 * pi * real k * real j / real N))"
  define T where "T = (\<lambda>k. Re (F k * c k))"
  have N0: "0 < N" using N M by simp
  have inv: "(\<Sum>k<N. F k * c k) = of_nat N * of_real (f j)"
    unfolding F_def c_def using dft_inverse[OF j, of "\<lambda>j'. of_real (f j')"] .
  have tot: "(\<Sum>k<N. T k) = real N * f j"
  proof -
    have "(\<Sum>k<N. T k) = Re (\<Sum>k<N. F k * c k)" unfolding T_def by simp
    also have "\<dots> = real N * f j" unfolding inv by simp
    finally show ?thesis .
  qed
  have refl_F: "F (N - k) = cnj (F k)" if "k \<le> N" for k
  proof -
    have "cis (- (2 * pi * real j' * real (N - k) / real N))
        = cnj (cis (- (2 * pi * real j' * real k / real N)))" for j'
    proof -
      have "- (2 * pi * real j' * real (N - k) / real N)
          = 2 * pi * real j' * real k / real N - 2 * pi * real j'"
        using that N0 by (simp add: of_nat_diff field_simps)
      then have "cis (- (2 * pi * real j' * real (N - k) / real N))
          = cis (2 * pi * real j' * real k / real N) / cis (2 * pi * real j')"
        by (simp only: cis_divide)
      then show ?thesis by (simp add: cis_cnj)
    qed
    then show ?thesis unfolding F_def by simp
  qed
  have refl_c: "c (N - k) = cnj (c k)" if "k \<le> N" for k
  proof -
    have "2 * pi * real (N - k) * real j / real N
        = 2 * pi * real j - 2 * pi * real k * real j / real N"
      using that N0 by (simp add: of_nat_diff field_simps)
    then have "c (N - k) = cis (2 * pi * real j) / cis (2 * pi * real k * real j / real N)"
      unfolding c_def by (simp only: cis_divide)
    also have "\<dots> = cnj (c k)"
      unfolding c_def by (simp add: cis_cnj cis_inverse divide_inverse)
    finally show ?thesis .
  qed
  have refl_T: "T (N - k) = T k" if "k \<le> N" for k
    unfolding T_def refl_F[OF that] refl_c[OF that]
    by (metis complex_cnj_mult complex_cnj_cnj complex_cnj_complex_of_real Re_complex_of_real
        complex_cnj_cancel_iff cnj.simps(1))
  have split: "{..<N} = {0} \<union> {1..<M} \<union> {M} \<union> {M + 1..<N}"
    using N M by auto
  have "(\<Sum>k<N. T k) = T 0 + (\<Sum>k = 1..<M. T k) + T M + (\<Sum>k = M + 1..<N. T k)"
    unfolding split using M by (simp add: sum.union_disjoint)
  moreover have "(\<Sum>k = M + 1..<N. T k) = (\<Sum>k = 1..<M. T k)"
  proof (rule sum.reindex_bij_witness[of _ "\<lambda>k. N - k" "\<lambda>k. N - k"])
    fix a assume "a \<in> {M + 1..<N}"
    then show "N - (N - a) = a" "N - a \<in> {1..<M}" "T (N - a) = T a"
      using N refl_T[of a] by auto
  next
    fix b assume "b \<in> {1..<M}"
    then show "N - (N - b) = b" "N - b \<in> {M + 1..<N}" using N by auto
  qed
  moreover have "T 0 = Re (F 0)" unfolding T_def c_def by simp
  moreover have "T M = Re (F M) * cos (pi * real j)"
  proof -
    have "2 * pi * real M * real j / real N = pi * real j" using N M by simp
    then have "c M = cis (pi * real j)" unfolding c_def by simp
    then show ?thesis unfolding T_def by simp
  qed
  moreover have "(\<Sum>k = 1..<M. 2 * Re (F k * cis (2 * pi * real k * real j / real N)))
      = (\<Sum>k = 1..<M. T k) + (\<Sum>k = 1..<M. T k)"
    unfolding T_def c_def by (simp add: sum.distrib[symmetric])
  ultimately show ?thesis using tot by simp
qed


text \<open>The inversion of the two-dimensional transform along the second axis.\<close>

lemma dft2_column:
  fixes f :: "nat \<Rightarrow> nat \<Rightarrow> real"
  assumes l: "l < N2"
  shows "(\<Sum>n<N2. (\<Sum>j<N1. \<Sum>l'<N2. of_real (f j l')
              * cis (- (2 * pi * (real m * real j / real N1 + real n * real l' / real N2))))
            * cis (2 * pi * real n * real l / real N2))
       = of_nat N2 * (\<Sum>j<N1. of_real (f j l) * cis (- (2 * pi * real j * real m / real N1)))"
proof -
  have sp: "cis (- (2 * pi * (real m * real j / real N1 + real n * real l' / real N2)))
      = cis (- (2 * pi * real j * real m / real N1))
        * cis (- (2 * pi * real l' * real n / real N2))" for j n l'
    unfolding cis_mult by (simp add: algebra_simps)
  have "(\<Sum>n<N2. (\<Sum>j<N1. \<Sum>l'<N2. of_real (f j l')
              * cis (- (2 * pi * (real m * real j / real N1 + real n * real l' / real N2))))
            * cis (2 * pi * real n * real l / real N2))
      = (\<Sum>n<N2. \<Sum>j<N1. cis (- (2 * pi * real j * real m / real N1))
            * ((\<Sum>l'<N2. of_real (f j l') * cis (- (2 * pi * real l' * real n / real N2)))
               * cis (2 * pi * real n * real l / real N2)))"
    unfolding sp by (simp add: sum_distrib_right sum_distrib_left mult_ac)
  also have "\<dots> = (\<Sum>j<N1. \<Sum>n<N2. cis (- (2 * pi * real j * real m / real N1))
            * ((\<Sum>l'<N2. of_real (f j l') * cis (- (2 * pi * real l' * real n / real N2)))
               * cis (2 * pi * real n * real l / real N2)))"
    by (rule sum.swap)
  also have "\<dots> = (\<Sum>j<N1. cis (- (2 * pi * real j * real m / real N1))
            * (of_nat N2 * of_real (f j l)))"
    unfolding sum_distrib_left[symmetric]
    using dft_inverse[OF l, of "\<lambda>l'. complex_of_real (f _ l')"] by simp
  also have "\<dots> = of_nat N2 * (\<Sum>j<N1. of_real (f j l) * cis (- (2 * pi * real j * real m / real N1)))"
    by (simp add: sum_distrib_left mult_ac)
  finally show ?thesis .
qed

text \<open>
  The index list and the two copies of \<^verbatim>\<open>rfft2D\<close> and \<^verbatim>\<open>irfft2D\<close> that use it.
\<close>

lemma norm_indices_idxlist:
  assumes "0 < C" "ntor \<le> C div 2"
  shows "norm_indices C (idxlist ntor) = Inr (band_cols C ntor)"
proof -
  have lt: "ntor < C" using assms by linarith
  have ok: "\<forall>i \<in> set (idxlist ntor). - int C \<le> i \<and> i < int C"
    using lt assms unfolding idxlist_def by auto
  have "map (\<lambda>i. nat (if i < 0 then i + int C else i)) (idxlist ntor) = band_cols C ntor"
    unfolding idxlist_def band_cols_def using lt
    by (auto simp: rev_map nat_diff_distrib' comp_def simp del: upt_Suc)
  with ok show ?thesis unfolding norm_indices_def by simp
qed

lemma length_band_cols [simp]: "length (band_cols C ntor) = 2 * ntor + 1"
  by (simp add: band_cols_def)

lemma band_cols_mem:
  assumes "j < C" "ntor \<le> C div 2"
  shows "j \<in> set (band_cols C ntor) \<longleftrightarrow> j \<le> ntor \<or> C \<le> j + ntor"
proof
  assume "j \<in> set (band_cols C ntor)"
  then show "j \<le> ntor \<or> C \<le> j + ntor"
    unfolding band_cols_def using assms by auto
next
  assume a: "j \<le> ntor \<or> C \<le> j + ntor"
  show "j \<in> set (band_cols C ntor)"
  proof (cases "j \<le> ntor")
    case True
    then show ?thesis unfolding band_cols_def by (cases "j = 0") auto
  next
    case False
    with a have "C \<le> j + ntor" by simp
    then have "1 \<le> C - j" "C - j \<le> ntor" "j = C - (C - j)" using assms by auto
    then have "j \<in> (\<lambda>k. C - k) ` {1..<ntor + 1}"
      by (metis atLeastLessThan_iff image_eqI le_imp_less_Suc Suc_eq_plus1)
    then show ?thesis unfolding band_cols_def by (simp del: upt_Suc)
  qed
qed

lemma gather_cols_entry:
  assumes idx: "norm_indices (ncols src) idx = Inr cols"
    and R: "R0 \<le> nrows src" "nrows dst = R0" "ncols dst = length cols"
  shows "\<exists>cn. gather_cols dst R0 idx src = Inr cn \<and> nrows cn = R0 \<and> ncols cn = length cols
            \<and> (\<forall>i<R0. \<forall>j<length cols. entry cn i j = entry src i (cols ! j))"
proof -
  have r: "min R0 (nrows dst) = R0" "min R0 (nrows src) = R0" using R by simp_all
  show ?thesis
    unfolding gather_cols_def idx Let_def r using R
    by (auto simp: bind_err_def)
qed

lemma find_Some_mem: "List.find P xs = Some x \<Longrightarrow> P x \<and> x \<in> set xs"
  by (induction xs) (auto split: if_splits)

lemma scatter_cols_entry:
  assumes idx: "norm_indices (ncols pad) idx = Inr cols"
    and R: "nrows src = R0" "R0 \<le> nrows pad" "ncols src = length cols"
    and g: "\<forall>i<R0. \<forall>c<length cols. entry src i c = g i (cols ! c)"
  shows "\<exists>p. scatter_cols pad R0 idx src = Inr p \<and> nrows p = nrows pad \<and> ncols p = ncols pad
            \<and> (\<forall>i j. entry p i j = (if i < R0 \<and> j \<in> set cols then g i j else entry pad i j))"
proof -
  have r: "min R0 (nrows pad) = R0" using R by simp
  define p where "p = pad\<lparr>entry := (\<lambda>i j.
              if i < R0 then
                (case List.find (\<lambda>c. cols ! c = j) (rev [0..<length cols]) of
                   None \<Rightarrow> entry pad i j
                 | Some c \<Rightarrow> entry src (if nrows src = 1 then 0 else i)
                                       (if ncols src = 1 then 0 else c))
              else entry pad i j)\<rparr>"
  have s: "scatter_cols pad R0 idx src = Inr p"
    unfolding scatter_cols_def idx Let_def r p_def using R by (simp add: bind_err_def)
  have e: "entry p i j = (if i < R0 \<and> j \<in> set cols then g i j else entry pad i j)" for i j
  proof (cases "i < R0")
    case False
    then show ?thesis unfolding p_def by simp
  next
    case True
    show ?thesis
    proof (cases "List.find (\<lambda>c. cols ! c = j) (rev [0..<length cols])")
      case None
      then have "j \<notin> set cols" by (auto simp: find_None_iff in_set_conv_nth)
      with None True show ?thesis unfolding p_def by simp
    next
      case (Some c)
      then have c: "c < length cols" "cols ! c = j"
        using find_Some_mem[OF Some] by auto
      then have m: "j \<in> set cols" by auto
      have i': "(if nrows src = 1 then 0 else i) = i" using True R by auto
      have c': "(if ncols src = 1 then 0 else c) = c" using c R by auto
      have "entry p i j = entry src i c"
        unfolding p_def using True Some i' c' by simp
      also have "\<dots> = g i j" using g True c by auto
      finally show ?thesis using True m by simp
    qed
  qed
  show ?thesis using s e by (auto simp: p_def)
qed

lemma scale_row_simps [simp]:
  "nrows (scale_row T r c) = nrows T" "ncols (scale_row T r c) = ncols T"
  "entry (scale_row T r c) i j = (if i = r then entry T i j * c else entry T i j)"
  by (simp_all add: scale_row_def)

lemma zeros2_simps [simp]:
  "nrows (zeros2 R C) = R" "ncols (zeros2 R C) = C" "entry (zeros2 R C) i j = 0"
  by (simp_all add: zeros2_def)

lemma Re_scale: "Re (complex_of_real K * z) = K * Re z"
  by simp

lemma rfft2D_irfft2D:
  assumes ev: "even (nrows f)" "even (ncols f)" and pos: "0 < nrows f" "0 < ncols f"
    and mp: "mpol \<le> nrows f div 2" and nt: "ntor \<le> ncols f div 2"
    and bl: "band_limited f mpol ntor"
  shows "\<exists>cn sn r. rfft2D f mpol ntor = Inr (cn, sn)
            \<and> irfft2D cn sn (nrows f) (ncols f) = Inr r
            \<and> nrows r = nrows f \<and> ncols r = ncols f
            \<and> (\<forall>j<nrows f. \<forall>l<ncols f. entry r j l = entry f j l)"
proof -
  define N1 where "N1 = nrows f"
  define N2 where "N2 = ncols f"
  define M1 where "M1 = N1 div 2"
  have N1: "N1 = 2 * M1" using ev(1) unfolding N1_def M1_def by simp
  have M1: "0 < M1" using pos(1) N1 unfolding N1_def by (cases M1) auto
  have N2: "0 < N2" "2 * (N2 div 2) = N2" using pos(2) ev(2) unfolding N2_def by simp_all
  have mp': "mpol \<le> M1" using mp unfolding M1_def N1_def .
  have nt': "ntor \<le> N2 div 2" using nt unfolding N2_def .
  define F where "F = (\<lambda>m n. \<Sum>j<N1. \<Sum>l<N2. complex_of_real (entry f j l)
        * cis (- (2 * pi * (real m * real j / real N1 + real n * real l / real N2))))"
  define cols where "cols = band_cols N2 ntor"
  have lcols: "length cols = 2 * ntor + 1" unfolding cols_def by simp
  have idx: "norm_indices N2 (idxlist ntor) = Inr cols"
    unfolding cols_def using norm_indices_idxlist[OF N2(1) nt'] .
  have rf: "np_rfft2 f = Inr \<lparr>nrows = M1 + 1, ncols = N2, entry = F\<rparr>"
    unfolding np_rfft2_def Let_def F_def N1_def[symmetric] N2_def[symmetric] M1_def
    using N2 N1 M1 by simp
  have band: "F m n = 0" if "m \<le> M1" "n < N2" "\<not> (m \<le> mpol \<and> n \<in> set cols)" for m n
  proof -
    from bl have B: "\<forall>m<M1 + 1. \<forall>n<N2. mpol < m \<or> (ntor < n \<and> n + ntor < N2) \<longrightarrow> F m n = 0"
      unfolding band_limited_def rf by simp
    have d: "mpol < m \<or> (ntor < n \<and> n + ntor < N2)"
      using that band_cols_mem[OF that(2) nt'] unfolding cols_def by auto
    have "m < M1 + 1" using that(1) by simp
    with B that(2) d show ?thesis by blast
  qed
  define fc where "fc = scale_row (scale_row
      \<lparr>nrows = M1 + 1, ncols = N2, entry = (\<lambda>m n. Re (F m n) / real N1 / real N2 * 2)\<rparr>
      0 (1 / 2)) M1 (1 / 2)"
  define fs where "fs = scale_row (scale_row
      \<lparr>nrows = M1 + 1, ncols = N2, entry = (\<lambda>m n. - Im (F m n) / real N1 / real N2 * 2)\<rparr>
      0 (1 / 2)) M1 (1 / 2)"
  have shc: "nrows fc = M1 + 1" "ncols fc = N2" and shs: "nrows fs = M1 + 1" "ncols fs = N2"
    unfolding fc_def fs_def by simp_all
  obtain cn where cn: "gather_cols (zeros2 (mpol + 1) (2 * ntor + 1)) (mpol + 1) (idxlist ntor) fc
        = Inr cn" "nrows cn = mpol + 1" "ncols cn = 2 * ntor + 1"
      "\<forall>i<mpol + 1. \<forall>j<length cols. entry cn i j = entry fc i (cols ! j)"
    using gather_cols_entry[of fc "idxlist ntor" cols "mpol + 1" "zeros2 (mpol + 1) (2 * ntor + 1)"]
      idx shc mp' lcols by auto
  obtain sn where sn: "gather_cols (zeros2 (mpol + 1) (2 * ntor + 1)) (mpol + 1) (idxlist ntor) fs
        = Inr sn" "nrows sn = mpol + 1" "ncols sn = 2 * ntor + 1"
      "\<forall>i<mpol + 1. \<forall>j<length cols. entry sn i j = entry fs i (cols ! j)"
    using gather_cols_entry[of fs "idxlist ntor" cols "mpol + 1" "zeros2 (mpol + 1) (2 * ntor + 1)"]
      idx shs mp' lcols by auto
  have fwd: "rfft2D f mpol ntor = Inr (cn, sn)"
    unfolding rfft2D_def rf Let_def bind_err_Inr
    using cn(1) sn(1)
    by (simp add: fc_def fs_def N1_def N2_def)
  obtain pc where pc: "scatter_cols (zeros2 (M1 + 1) N2) (mpol + 1) (idxlist ntor) cn = Inr pc"
      "nrows pc = M1 + 1" "ncols pc = N2"
      "\<forall>i j. entry pc i j = (if i < mpol + 1 \<and> j \<in> set cols then entry fc i j else 0)"
    using scatter_cols_entry[of "zeros2 (M1 + 1) N2" "idxlist ntor" cols cn "mpol + 1" "entry fc"]
      idx cn mp' lcols by auto
  obtain ps where ps: "scatter_cols (zeros2 (M1 + 1) N2) (mpol + 1) (idxlist ntor) sn = Inr ps"
      "nrows ps = M1 + 1" "ncols ps = N2"
      "\<forall>i j. entry ps i j = (if i < mpol + 1 \<and> j \<in> set cols then entry fs i j else 0)"
    using scatter_cols_entry[of "zeros2 (M1 + 1) N2" "idxlist ntor" cols sn "mpol + 1" "entry fs"]
      idx sn mp' lcols by auto
  define G where "G = \<lparr>nrows = M1 + 1, ncols = N2,
      entry = (\<lambda>m n. Complex (entry (scale_row (scale_row pc 0 2) M1 2) m n)
                              (- entry (scale_row (scale_row ps 0 2) M1 2) m n))\<rparr>"
  have inv: "irfft2D cn sn N1 N2 = bind_err (np_irfft2 G)
      (\<lambda>r. Inr (r\<lparr>entry := (\<lambda>j l. entry r j l * real N1 * real N2 / 2)\<rparr>))"
    unfolding irfft2D_def Let_def
    using pc(1,2,3) ps(1,2,3) cn(2,3) N2(2) M1_def[symmetric]
    by (simp add: G_def)
  define K where "K = 2 / (real N1 * real N2)"
  have GF: "entry G m n = of_real K * F m n" if "m \<le> M1" "n < N2" for m n
  proof (cases "m \<le> mpol \<and> n \<in> set cols")
    case True
    then have "entry G m n = Complex (Re (F m n) / real N1 / real N2 * 2)
                                     (Im (F m n) / real N1 / real N2 * 2)"
      unfolding G_def using pc(4) ps(4) M1 by (simp add: fc_def fs_def)
    then show ?thesis unfolding K_def by (simp add: complex_eq_iff)
  next
    case False
    then have "entry G m n = 0"
      unfolding G_def using pc(4) ps(4) by (auto simp: zero_complex.code Complex_eq_0)
    moreover have "F m n = 0" using band[OF that False] .
    ultimately show ?thesis by simp
  qed
  define r0 where "r0 = \<lparr>nrows = N1, ncols = N2,
               entry = (\<lambda>j l. (Re ((\<Sum>n<N2. entry G 0 n * cis (2 * pi * real n * real l / real N2))
                        / of_nat N2)
                   + (\<Sum>m = 1..<N1 div 2. 2 * Re ((\<Sum>n<N2. entry G m n * cis (2 * pi * real n * real l / real N2))
                        / of_nat N2 * cis (2 * pi * real m * real j / real N1)))
                   + Re ((\<Sum>n<N2. entry G (N1 div 2) n * cis (2 * pi * real n * real l / real N2))
                        / of_nat N2) * cos (pi * real j)) / real N1)\<rparr>"
  have ir: "np_irfft2 G = Inr r0"
    unfolding np_irfft2_def Let_def r0_def G_def using M1 N2 N1 by simp
  define r where "r = r0\<lparr>entry := (\<lambda>j l. entry r0 j l * real N1 * real N2 / 2)\<rparr>"
  have res: "irfft2D cn sn N1 N2 = Inr r" unfolding inv ir r_def by simp
  have ent: "entry r j l = entry f j l" if j: "j < N1" and l: "l < N2" for j l
  proof -
    define R where "R = (\<lambda>m. \<Sum>j<N1. complex_of_real (entry f j l)
        * cis (- (2 * pi * real j * real m / real N1)))"
    define X where "X = (\<lambda>m. (\<Sum>n<N2. entry G m n * cis (2 * pi * real n * real l / real N2))
        / of_nat N2)"
    have H: "X m = of_real K * R m" if "m \<le> M1" for m
    proof -
      have "(\<Sum>n<N2. entry G m n * cis (2 * pi * real n * real l / real N2))
          = (\<Sum>n<N2. of_real K * (F m n * cis (2 * pi * real n * real l / real N2)))"
        by (intro sum.cong refl) (simp add: GF that)
      also have "\<dots> = of_real K * (\<Sum>n<N2. F m n * cis (2 * pi * real n * real l / real N2))"
        by (simp add: sum_distrib_left)
      also have "(\<Sum>n<N2. F m n * cis (2 * pi * real n * real l / real N2)) = of_nat N2 * R m"
        unfolding F_def R_def by (rule dft2_column[OF l])
      finally show ?thesis unfolding X_def using N2(1) by simp
    qed
    have hs: "Re (R 0) + (\<Sum>m = 1..<M1. 2 * Re (R m * cis (2 * pi * real m * real j / real N1)))
           + Re (R M1) * cos (pi * real j) = real N1 * entry f j l"
      unfolding R_def by (rule half_spectrum_inverse[OF N1 M1 j])
    have h2: "N1 div 2 = M1" unfolding M1_def ..
    have mid: "(\<Sum>m = 1..<M1. 2 * Re (X m * cis (2 * pi * real m * real j / real N1)))
        = K * (\<Sum>m = 1..<M1. 2 * Re (R m * cis (2 * pi * real m * real j / real N1)))"
    proof -
      have "(\<Sum>m = 1..<M1. 2 * Re (X m * cis (2 * pi * real m * real j / real N1)))
          = (\<Sum>m = 1..<M1. K * (2 * Re (R m * cis (2 * pi * real m * real j / real N1))))"
      proof (intro sum.cong refl)
        fix m assume "m \<in> {1..<M1}"
        then have "m \<le> M1" by simp
        show "2 * Re (X m * cis (2 * pi * real m * real j / real N1))
            = K * (2 * Re (R m * cis (2 * pi * real m * real j / real N1)))"
          unfolding H[OF \<open>m \<le> M1\<close>] mult.assoc Re_scale by simp
      qed
      then show ?thesis by (simp add: sum_distrib_left)
    qed
    have x0: "Re (X 0) = K * Re (R 0)" unfolding H[of 0, simplified] Re_scale ..
    have xM: "Re (X M1) = K * Re (R M1)" unfolding H[of M1, simplified] Re_scale ..
    have "entry r0 j l = (Re (X 0)
        + (\<Sum>m = 1..<M1. 2 * Re (X m * cis (2 * pi * real m * real j / real N1)))
        + Re (X M1) * cos (pi * real j)) / real N1"
      unfolding r0_def h2 X_def by (simp only: array2.select_convs)
    also have "\<dots> = (K * Re (R 0)
        + K * (\<Sum>m = 1..<M1. 2 * Re (R m * cis (2 * pi * real m * real j / real N1)))
        + K * Re (R M1) * cos (pi * real j)) / real N1"
      unfolding mid x0 xM ..
    also have "\<dots> = K * (real N1 * entry f j l) / real N1"
      unfolding hs[symmetric] by (simp add: algebra_simps)
    also have "\<dots> = K * entry f j l" using M1 N1 by simp
    finally have "entry r0 j l = K * entry f j l" .
    then show ?thesis unfolding r_def K_def using M1 N1 N2(1) by simp
  qed
  have "nrows r = N1" "ncols r = N2" unfolding r_def r0_def by simp_all
  with fwd res ent show ?thesis unfolding N1_def N2_def by blast
qed

lemma rfft1D_eval:
  assumes "f \<noteq> []"
  shows "rfft1D f = Inr
     ((map (\<lambda>k. Re (\<Sum>j<length f. of_real (f ! j)
                     * cis (- (2 * pi * real j * real k / real (length f)))) / real (length f) * 2)
          [0..<length f div 2 + 1])
        [0 := Re (\<Sum>j<length f. of_real (f ! j)) / real (length f)],
      (map (\<lambda>k. - Im (\<Sum>j<length f. of_real (f ! j)
                     * cis (- (2 * pi * real j * real k / real (length f)))) / real (length f) * 2)
          [0..<length f div 2 + 1])
        [0 := 0])"
  using assms unfolding rfft1D_def np_rfft_def Let_def
  by (simp add: comp_def upt_conv_Cons del: upt_Suc)

lemma rfft1D_irfft1D:
  assumes ev: "even (length f)" and ne: "f \<noteq> []"
  shows "\<exists>c s. rfft1D f = Inr (c, s) \<and> irfft1D c s 1 = Inr f"
proof -
  define N where "N = length f"
  define M where "M = N div 2"
  have N: "N = 2 * M" using ev unfolding N_def M_def by simp
  have M: "0 < M" using ne N unfolding N_def by (cases M) auto
  define F where "F = (\<lambda>k. \<Sum>j<N. complex_of_real (f ! j)
                     * cis (- (2 * pi * real j * real k / real N)))"
  define c where "c = (map (\<lambda>k. Re (F k) / real N * 2) [0..<M + 1])[0 := Re (F 0) / real N]"
  define s where "s = (map (\<lambda>k. - Im (F k) / real N * 2) [0..<M + 1])[0 := 0]"
  have F0: "F 0 = (\<Sum>j<N. of_real (f ! j))" unfolding F_def by simp
  have r: "rfft1D f = Inr (c, s)"
    using rfft1D_eval[OF ne] unfolding c_def s_def F_def N_def[symmetric] M_def[symmetric]
    by simp
  have lc: "length c = M + 1" and ls: "length s = M + 1" unfolding c_def s_def by simp_all
  define a where "a = map2 (\<lambda>c s. (of_real c - \<i> * of_real s) * of_int (int M)) c s"
  define a' where "a' = a[0 := a ! 0 * 2]"
  have la: "length a = M + 1" unfolding a_def using lc ls by simp
  have la': "length a' = M + 1" unfolding a'_def using la by simp
  have ak: "a ! k = (of_real (c ! k) - \<i> * of_real (s ! k)) * of_nat M" if "k \<le> M" for k
    unfolding a_def using that lc ls by simp
  have ck: "c ! k = Re (F k) / real N * 2" if "1 \<le> k" "k \<le> M" for k
    unfolding c_def using that by (simp add: nth_list_update del: upt_Suc)
  have sk: "s ! k = - Im (F k) / real N * 2" if "1 \<le> k" "k \<le> M" for k
    unfolding s_def using that by (simp add: nth_list_update del: upt_Suc)
  have c0: "c ! 0 = Re (F 0) / real N" unfolding c_def by (simp add: upt_conv_Cons del: upt_Suc)
  have s0: "s ! 0 = 0" unfolding s_def by (simp add: upt_conv_Cons del: upt_Suc)
  have a'k: "cnth a' k = F k" if "1 \<le> k" "k \<le> M" for k
  proof -
    have "cnth a' k = a ! k" unfolding cnth_def a'_def using that la by simp
    also have "\<dots> = (of_real (Re (F k) / real N * 2) - \<i> * of_real (- Im (F k) / real N * 2))
                      * of_nat M"
      using ak[of k] ck[of k] sk[of k] that by simp
    also have "\<dots> = F k"
      using M unfolding N by (simp add: complex_eq_iff)
    finally show ?thesis .
  qed
  have a'0: "Re (cnth a' 0) = Re (F 0)"
  proof -
    have "cnth a' 0 = a ! 0 * 2" unfolding cnth_def a'_def using la by simp
    also have "\<dots> = of_real (Re (F 0) / real N) * of_nat M * 2"
      using ak[of 0] c0 s0 by simp
    finally show ?thesis using M unfolding N by simp
  qed
  have i: "irfft1D c s 1 = np_irfft a' (2 * int M)"
  proof -
    have "s \<noteq> []" using ls by auto
    moreover have "a \<noteq> []" using la by auto
    moreover have "broadcast2 (\<lambda>c s. (of_real c - \<i> * of_real s) * of_int (int M)) c s = Inr a"
      unfolding a_def using lc ls by (simp add: broadcast2_same)
    ultimately show ?thesis
      unfolding irfft1D_def Let_def a'_def using lc by simp
  qed
  have "np_irfft a' (2 * int M) = Inr (map (\<lambda>j. f ! j) [0..<N])"
  proof -
    have n: "nat (2 * int M) = N" unfolding N by simp
    have pt: "(Re (cnth a' 0)
                       + (\<Sum>k = 1..<(N + 1) div 2.
                            2 * Re (cnth a' k * cis (2 * pi * real k * real j / real N)))
                       + (if even N then Re (cnth a' (N div 2)) * cos (pi * real j) else 0))
                      / real N = f ! j" if "j < N" for j
    proof -
      have h: "(N + 1) div 2 = M" "N div 2 = M" "even N" unfolding N by simp_all
      have "(\<Sum>k = 1..<M. 2 * Re (cnth a' k * cis (2 * pi * real k * real j / real N)))
          = (\<Sum>k = 1..<M. 2 * Re (F k * cis (2 * pi * real k * real j / real N)))"
        by (intro sum.cong refl) (simp add: a'k)
      moreover have "cnth a' M = F M" using a'k[of M] M by simp
      moreover have "Re (F 0) + (\<Sum>k = 1..<M. 2 * Re (F k * cis (2 * pi * real k * real j / real N)))
           + Re (F M) * cos (pi * real j) = real N * f ! j"
        unfolding F_def by (rule half_spectrum_inverse[OF N M that])
      ultimately show ?thesis unfolding h using a'0 M N by simp
    qed
    have "1 \<le> 2 * int M" using M by simp
    then show ?thesis
      unfolding np_irfft_def Let_def n using pt by (simp del: upt_Suc)
  qed
  also have "map (\<lambda>j. f ! j) [0..<N] = f" unfolding N_def by (rule map_nth)
  finally show ?thesis using r i by simp
qed

text \<open>
  C4: over the reals the inverse transform undoes the forward transform. In one
  dimension, \<^verbatim>\<open>irfft1D\<close> of the result of \<^verbatim>\<open>rfft1D\<close> is the array itself for every
  array of even, non-zero length (the grid of 2 * (len(cos) - 1) points that
  \<^verbatim>\<open>irfft1D\<close> returns). In two dimensions, for an array on a grid of even sizes that
  is band-limited to the mode counts mpol and ntor, both within the half grid sizes,
  \<^verbatim>\<open>irfft2D\<close> to the grid of the array, applied to the result of \<^verbatim>\<open>rfft2D\<close> with
  these mode counts, returns an array of the same shape with the same entries.
\<close>

theorem fourier_roundtrip:
  "(even (length f) \<and> f \<noteq> []
      \<longrightarrow> (\<exists>c s. rfft1D f = Inr (c, s) \<and> irfft1D c s 1 = Inr f))
   \<and> (even (nrows g) \<and> even (ncols g) \<and> 0 < nrows g \<and> 0 < ncols g
        \<and> mpol \<le> nrows g div 2 \<and> ntor \<le> ncols g div 2 \<and> band_limited g mpol ntor
      \<longrightarrow> (\<exists>cn sn r. rfft2D g mpol ntor = Inr (cn, sn)
              \<and> irfft2D cn sn (nrows g) (ncols g) = Inr r
              \<and> nrows r = nrows g \<and> ncols r = ncols g
              \<and> (\<forall>j<nrows g. \<forall>l<ncols g. entry r j l = entry g j l)))"
  using rfft1D_irfft1D[of f] rfft2D_irfft2D[of g mpol ntor] by blast

lemma cis_minus_pi: "cis (- pi) = - 1"
  by (simp add: cis_cnj[symmetric])

lemma cis_minus_2pi: "cis (- (2 * pi)) = 1"
  by (simp add: cis_cnj[symmetric])

theorem fourier_roundtrip_witness:
  "(\<exists>c s. rfft1D [3, 5, 7, 2] = Inr (c, s) \<and> irfft1D c s 1 = Inr [3, 5, 7, 2])
   \<and> (\<exists>cn sn r.
        rfft2D \<lparr>nrows = 2, ncols = 2, entry = (\<lambda>j l. if j = 0 then 3 else 5)\<rparr> 1 0
          = Inr (cn, sn)
        \<and> irfft2D cn sn 2 2 = Inr r \<and> flatten r = [3, 3, 5, 5])"
proof -
  let ?g = "\<lparr>nrows = 2, ncols = 2, entry = (\<lambda>j l. if j = 0 then 3 else 5 :: real)\<rparr>"
  have bl: "band_limited ?g 1 0"
    unfolding band_limited_def np_rfft2_def
    by (simp add: lessThan_Suc numeral_2_eq_2 less_Suc_eq cis_minus_pi cis_minus_2pi)
  have h: "even (nrows ?g) \<and> even (ncols ?g) \<and> 0 < nrows ?g \<and> 0 < ncols ?g
        \<and> 1 \<le> nrows ?g div 2 \<and> 0 \<le> ncols ?g div 2 \<and> band_limited ?g 1 0"
    using bl by simp
  from fourier_roundtrip[of "[3, 5, 7, 2]" ?g 1 0] h
  obtain cn sn r where r: "rfft2D ?g 1 0 = Inr (cn, sn)" "irfft2D cn sn 2 2 = Inr r"
      "nrows r = 2" "ncols r = 2" "\<forall>j<2. \<forall>l<2. entry r j l = entry ?g j l"
    by auto
  have "flatten r = [3, 3, 5, 5]"
    unfolding flatten_def using r(3,4,5) by (simp add: upt_rec numeral_2_eq_2)
  with r(1,2) fourier_roundtrip[of "[3, 5, 7, 2]" ?g 1 0] show ?thesis by auto
qed

end
